theory Spec2Isabelle
  imports Main "HOL-Library.Sublist"
begin

section \<open>Strings\<close>

text \<open>
  Go strings are byte sequences; they are modelled as \<open>string\<close> (a \<open>char list\<close>).
  Only the functions of package \<open>strings\<close> that the program calls are modelled, each with
  the separator the program passes (a single character).
\<close>

definition strings_HasPrefix :: "string \<Rightarrow> string \<Rightarrow> bool" where
  "strings_HasPrefix s p = prefix p s"

definition strings_HasSuffix :: "string \<Rightarrow> string \<Rightarrow> bool" where
  "strings_HasSuffix s p = suffix p s"

definition strings_TrimPrefix :: "string \<Rightarrow> string \<Rightarrow> string" where
  "strings_TrimPrefix s p = (if prefix p s then drop (length p) s else s)"

text \<open>\<open>strings.Split(s, sep)\<close> for a one-character separator: all the pieces between
  separators, so the result is never empty.\<close>

fun strings_Split :: "string \<Rightarrow> char \<Rightarrow> string list" where
  "strings_Split [] c = [[]]"
| "strings_Split (x # xs) c =
     (if x = c then [] # strings_Split xs c
      else (case strings_Split xs c of
              [] \<Rightarrow> [[x]]
            | y # ys \<Rightarrow> (x # y) # ys))"

text \<open>\<open>strings.SplitN(s, sep, 2)\<close>: the text before the first separator and the rest,
  or the whole string when it holds no separator.\<close>

definition strings_SplitN2 :: "string \<Rightarrow> char \<Rightarrow> string list" where
  "strings_SplitN2 s c =
     (if c \<in> set s then [takeWhile (\<lambda>x. x \<noteq> c) s, tl (dropWhile (\<lambda>x. x \<noteq> c) s)]
      else [s])"

fun strings_Join :: "string list \<Rightarrow> string \<Rightarrow> string" where
  "strings_Join [] sep = []"
| "strings_Join [p] sep = p"
| "strings_Join (p # q # ps) sep = p @ sep @ strings_Join (q # ps) sep"

section \<open>Run-time panics\<close>

text \<open>
  A Go panic ends the program. Every function that can panic returns \<open>Panic + 'a\<close>,
  with \<open>Inl\<close> for the panic. The program indexes slices (\<open>block.Labels[0]\<close>,
  \<open>strings.Split(nodeID, ".")[1]\<close>) and calls \<open>cty.Value.AsString\<close>, which panics
  on a value that is not a string.
\<close>

datatype Panic = IndexOutOfRange | NotAString

definition index :: "'a list \<Rightarrow> nat \<Rightarrow> Panic + 'a" where
  "index xs i = (if i < length xs then Inr (xs ! i) else Inl IndexOutOfRange)"

section \<open>The configuration front end\<close>

text \<open>
  The HCL library is an external collaborator. The model takes what it delivers:
  a block has a type, its labels and its attributes; an attribute's expression has
  the variable traversals it contains (\<open>Expr.Variables()\<close>) and the result of
  evaluating it with no context (\<open>Expr.Value(nil)\<close>, \<open>None\<close> when the evaluation
  reports errors). \<open>Attrs\<close> is the map \<open>JustAttributes()\<close> returns, listed in the
  order in which the \<open>range\<close> loop of \<open>extractReferences\<close> visits it (Go leaves that
  order open, so every order is a possible input).
\<close>

datatype CtyValue = CtyString string | CtyOther

definition AsString :: "CtyValue \<Rightarrow> Panic + string" where
  "AsString v = (case v of CtyString s \<Rightarrow> Inr s | CtyOther \<Rightarrow> Inl NotAString)"

datatype Traverser =
    TraverseRoot string
  | TraverseAttr string
  | TraverseIndex CtyValue
  | TraverseSplat

type_synonym Traversal = "Traverser list"

record Expr =
  Variables :: "Traversal list"
  ExprValue :: "CtyValue option"

record Block =
  BlockType :: string
  Labels :: "string list"
  Attrs :: "(string \<times> Expr) list"

text \<open>
  A schema lists the block types \<open>Body.Content\<close> accepts, each with its label names.
  The three schemas below are the ones the program passes.
\<close>

type_synonym Schema = "(string \<times> string list) list"

definition locatorSchema :: Schema where
  "locatorSchema =
     [(''resource'', [''type'', ''name'']),
      (''module'', [''name'']),
      (''data'', [''type'', ''name'']),
      (''variable'', [''name'']),
      (''output'', [''name'']),
      (''provider'', [''name'']),
      (''terraform'', []),
      (''locals'', [])]"

definition moduleCallSchema :: Schema where
  "moduleCallSchema = [(''module'', [''name''])]"

definition moduleDirSchema :: Schema where
  "moduleDirSchema =
     [(''resource'', [''type'', ''name'']),
      (''data'', [''type'', ''name'']),
      (''module'', [''name'']),
      (''output'', [''name''])]"

text \<open>
  The world outside the program:
  \<^item> \<open>walk dir\<close>: the entries \<open>filepath.Walk\<close> visits under \<open>dir\<close>, each with its path
    and its base name (\<open>info.Name()\<close>), or \<open>None\<close> when the walk reports an error;
  \<^item> \<open>parseContent file schema\<close>: the blocks of \<open>ParseHCLFile\<close> followed by
    \<open>Body.Content(schema)\<close>, or \<open>None\<close> when either reports errors (the program
    skips the file in both cases);
  \<^item> \<open>statOk path\<close>: \<open>os.Stat\<close> returns no error;
  \<^item> \<open>filepath_Join\<close>, \<open>filepath_IsAbs\<close>, \<open>filepath_Clean\<close>: package \<open>filepath\<close>;
  \<^item> \<open>rangeOrder n\<close>: the order in which the \<open>n\<close>-th \<open>range\<close> loop over a
    \<open>References\<close> map visits the categories. Go randomises the order of every such
    loop; taking it from the world covers every order the program can run in.
\<close>

record World =
  walk :: "string \<Rightarrow> (string \<times> string) list option"
  parseContent :: "string \<Rightarrow> Schema \<Rightarrow> Block list option"
  statOk :: "string \<Rightarrow> bool"
  filepath_Join :: "string \<Rightarrow> string \<Rightarrow> string"
  filepath_IsAbs :: "string \<Rightarrow> bool"
  filepath_Clean :: "string \<Rightarrow> string"
  rangeOrder :: "nat \<Rightarrow> string list"

section \<open>The graph model\<close>

record Reference =
  RefID :: string
  RefPath :: string

type_synonym References = "string \<rightharpoonup> Reference list"

record Node =
  ID :: string
  Type :: string
  Name :: string
  Path :: string
  References :: References
  Depth :: int

record Graph =
  Nodes :: "string \<rightharpoonup> Node"
  MaxDepth :: int

text \<open>\<open>Node{}\<close>, the zero value.\<close>

definition emptyNode :: Node where
  "emptyNode = \<lparr>ID = [], Type = [], Name = [], Path = [], References = Map.empty, Depth = 0\<rparr>"

text \<open>Reading a missing key of a Go map of slices gives the nil slice.\<close>

definition refsAt :: "References \<Rightarrow> string \<Rightarrow> Reference list" where
  "refsAt refs category = (case refs category of None \<Rightarrow> [] | Some rs \<Rightarrow> rs)"

text \<open>
  The two nested loops \<open>for category, refs := range m { for _, ref := range refs {...} }\<close>
  visit the pairs below when the outer loop takes the categories in the order \<open>keys\<close>.
\<close>

definition rangeReferences :: "string list \<Rightarrow> References \<Rightarrow> (string \<times> Reference) list" where
  "rangeReferences keys refs = concat (map (\<lambda>c. map (Pair c) (refsAt refs c)) keys)"

section \<open>Utilities (findTerraformFiles, resolvePath)\<close>

definition findTerraformFiles :: "World \<Rightarrow> string \<Rightarrow> string list" where
  "findTerraformFiles w basePath =
     (case walk w basePath of
        None \<Rightarrow> []
      | Some entries \<Rightarrow> map fst (filter (\<lambda>e. strings_HasSuffix (snd e) ''.tf'') entries))"

definition resolvePath :: "World \<Rightarrow> string \<Rightarrow> string \<Rightarrow> string" where
  "resolvePath w basePath relativePath =
     (if filepath_IsAbs w relativePath then relativePath
      else filepath_Clean w (filepath_Join w basePath relativePath))"

section \<open>Reference Extractor (resource.go)\<close>

fun traverserParts :: "Traverser \<Rightarrow> string list" where
  "traverserParts (TraverseRoot n) = [n]"
| "traverserParts (TraverseAttr n) = [n]"
| "traverserParts (TraverseIndex (CtyString s)) = [s]"
| "traverserParts (TraverseIndex CtyOther) = []"
| "traverserParts TraverseSplat = []"

definition traversalToReference :: "Traversal \<Rightarrow> string" where
  "traversalToReference traversal = strings_Join (concat (map traverserParts traversal)) ''.''"

definition appendUniqueReference :: "Reference list \<Rightarrow> Reference \<Rightarrow> Reference list" where
  "appendUniqueReference slice element =
     (if RefID element \<in> set (map RefID slice) then slice else slice @ [element])"

text \<open>The body of the inner loop of \<open>extractReferences\<close>, for one traversal \<open>v\<close>.\<close>

definition addReference :: "string \<Rightarrow> References \<Rightarrow> Traversal \<Rightarrow> References" where
  "addReference filePath refs v =
     (let ref = traversalToReference v in
      if ref = [] then refs
      else
        let parts = strings_SplitN2 ref CHR ''.'' in
        if length parts < 2 then refs
        else
          let pre = hd parts;
              reference = \<lparr>RefID = ref, RefPath = filePath\<rparr>
          in
            if pre = ''var'' then
              refs(''variable'' \<mapsto> appendUniqueReference (refsAt refs ''variable'') reference)
            else if pre = ''module'' then
              refs(''module'' \<mapsto> appendUniqueReference (refsAt refs ''module'') reference)
            else if pre = ''data'' then
              refs(''data'' \<mapsto> appendUniqueReference (refsAt refs ''data'') reference)
            else
              refs(''resource'' \<mapsto> appendUniqueReference (refsAt refs ''resource'') reference))"

definition extractReferences :: "Block \<Rightarrow> string \<Rightarrow> References" where
  "extractReferences block filePath =
     foldl (\<lambda>refs attr. foldl (addReference filePath) refs (Variables (snd attr)))
       Map.empty (Attrs block)"

section \<open>Declaration Locator (resource.go)\<close>

definition getBlockID :: "Block \<Rightarrow> Panic + string" where
  "getBlockID block =
     (if BlockType block = ''resource'' then
        (case Labels block of
           t # n # _ \<Rightarrow> Inr (t @ ''.'' @ n)
         | _ \<Rightarrow> Inl IndexOutOfRange)
      else if BlockType block = ''module'' then
        (case Labels block of
           l # _ \<Rightarrow> Inr (''module.'' @ l)
         | _ \<Rightarrow> Inl IndexOutOfRange)
      else if BlockType block = ''data'' then
        (case Labels block of
           t # n # _ \<Rightarrow> Inr (''data.'' @ t @ ''.'' @ n)
         | _ \<Rightarrow> Inl IndexOutOfRange)
      else if BlockType block = ''output'' then
        (case Labels block of
           l # _ \<Rightarrow> Inr (''output.'' @ l)
         | _ \<Rightarrow> Inl IndexOutOfRange)
      else Inr [])"

text \<open>\<open>block.Labels[len(block.Labels)-1]\<close>\<close>

definition lastLabel :: "Block \<Rightarrow> Panic + string" where
  "lastLabel block =
     (if Labels block = [] then Inl IndexOutOfRange else Inr (last (Labels block)))"

fun findNodeInBlocks :: "Block list \<Rightarrow> string \<Rightarrow> string \<Rightarrow> Panic + Node option" where
  "findNodeInBlocks [] nodeID file = Inr None"
| "findNodeInBlocks (block # blocks) nodeID file =
     (case getBlockID block of
        Inl p \<Rightarrow> Inl p
      | Inr currentID \<Rightarrow>
          if currentID = nodeID then
            (case lastLabel block of
               Inl p \<Rightarrow> Inl p
             | Inr name \<Rightarrow>
                 Inr (Some \<lparr>ID = currentID, Type = BlockType block, Name = name, Path = file,
                            References = extractReferences block file, Depth = 0\<rparr>))
          else findNodeInBlocks blocks nodeID file)"

text \<open>The loop over the files of \<open>findResourceNode\<close>.\<close>

fun findResourceInFiles :: "World \<Rightarrow> string list \<Rightarrow> string \<Rightarrow> Panic + Node option" where
  "findResourceInFiles w [] nodeID = Inr None"
| "findResourceInFiles w (file # files) nodeID =
     (case parseContent w file locatorSchema of
        None \<Rightarrow> findResourceInFiles w files nodeID
      | Some blocks \<Rightarrow>
          (case findNodeInBlocks blocks nodeID file of
             Inl p \<Rightarrow> Inl p
           | Inr (Some node) \<Rightarrow> Inr (Some node)
           | Inr None \<Rightarrow> findResourceInFiles w files nodeID))"

text \<open>\<open>findResourceNode\<close> returns \<open>(Node, bool)\<close>; \<open>(Node{}, false)\<close> is \<open>None\<close> here.\<close>

definition findResourceNode :: "World \<Rightarrow> string \<Rightarrow> string \<Rightarrow> Panic + Node option" where
  "findResourceNode w basePath nodeID =
     findResourceInFiles w (findTerraformFiles w basePath) nodeID"

section \<open>Module Resolver (findModuleNode)\<close>

text \<open>
  The loops of \<open>findModuleNode\<close> over the blocks of one file and over the files.
  A loop that ends without returning gives \<open>None\<close>; the \<open>return\<close> inside gives the
  resolved directory and the module-call Node.
\<close>

fun findModuleInBlocks ::
  "World \<Rightarrow> string \<Rightarrow> string \<Rightarrow> string \<Rightarrow> string \<Rightarrow> Block list \<Rightarrow> Panic + (string \<times> Node) option"
where
  "findModuleInBlocks w basePath moduleID moduleName file [] = Inr None"
| "findModuleInBlocks w basePath moduleID moduleName file (block # blocks) =
     (if BlockType block = ''module'' then
        (case index (Labels block) 0 of
           Inl p \<Rightarrow> Inl p
         | Inr label \<Rightarrow>
             if label = moduleName then
               (case map_of (Attrs block) ''source'' of
                  None \<Rightarrow> findModuleInBlocks w basePath moduleID moduleName file blocks
                | Some sourceAttr \<Rightarrow>
                    (case ExprValue sourceAttr of
                       None \<Rightarrow> findModuleInBlocks w basePath moduleID moduleName file blocks
                     | Some sourceVal \<Rightarrow>
                         (case AsString sourceVal of
                            Inl p \<Rightarrow> Inl p
                          | Inr sourcePath \<Rightarrow>
                              if strings_HasPrefix sourcePath ''.'' then
                                (let absolutePath = filepath_Join w basePath sourcePath in
                                 if statOk w absolutePath then
                                   Inr (Some (absolutePath,
                                     \<lparr>ID = moduleID, Type = ''module'', Name = moduleName,
                                      Path = file, References = extractReferences block file,
                                      Depth = 0\<rparr>))
                                 else findModuleInBlocks w basePath moduleID moduleName file blocks)
                              else findModuleInBlocks w basePath moduleID moduleName file blocks)))
             else findModuleInBlocks w basePath moduleID moduleName file blocks)
      else findModuleInBlocks w basePath moduleID moduleName file blocks)"

fun findModuleInFiles ::
  "World \<Rightarrow> string \<Rightarrow> string \<Rightarrow> string \<Rightarrow> string list \<Rightarrow> Panic + (string \<times> Node) option"
where
  "findModuleInFiles w basePath moduleID moduleName [] = Inr None"
| "findModuleInFiles w basePath moduleID moduleName (file # files) =
     (case parseContent w file moduleCallSchema of
        None \<Rightarrow> findModuleInFiles w basePath moduleID moduleName files
      | Some blocks \<Rightarrow>
          (case findModuleInBlocks w basePath moduleID moduleName file blocks of
             Inl p \<Rightarrow> Inl p
           | Inr (Some r) \<Rightarrow> Inr (Some r)
           | Inr None \<Rightarrow> findModuleInFiles w basePath moduleID moduleName files))"

definition findModuleNode :: "World \<Rightarrow> string \<Rightarrow> string \<Rightarrow> Panic + (string \<times> Node)" where
  "findModuleNode w basePath moduleID =
     (let moduleName0 = strings_TrimPrefix moduleID ''module.'';
          parts = strings_SplitN2 moduleName0 CHR ''.'';
          moduleName = (if length parts > 0 then hd parts else moduleName0)
      in
        case findModuleInFiles w basePath moduleID moduleName (findTerraformFiles w basePath) of
          Inl p \<Rightarrow> Inl p
        | Inr (Some r) \<Rightarrow> Inr r
        | Inr None \<Rightarrow> Inr ([], emptyNode))"

section \<open>Graph Traverser (graph.go, module traversal)\<close>

text \<open>
  The traversal mutates \<open>graph.Nodes\<close> and \<open>processedNodes\<close> through pointers; the
  model passes them as a state and returns the new state. \<open>graph.MaxDepth\<close> is never
  assigned during the traversal, so it is the argument \<open>m\<close>. \<open>rangeCount\<close> counts
  the \<open>range\<close> loops over \<open>References\<close> maps run so far; it selects the order of the
  next one (see \<open>rangeOrder\<close>) and is no variable of the program.

  Depths are Go \<open>int\<close>s (64 bits). They are modelled as unbounded integers: a depth
  grows by one per nested call, so it cannot overflow before the call stack does.
\<close>

record TState =
  nodes :: "string \<rightharpoonup> Node"
  processedNodes :: "string \<Rightarrow> bool"
  rangeCount :: nat

text \<open>\<open>processedNodes[nodeID] = true\<close>\<close>

definition markProcessed :: "string \<Rightarrow> TState \<Rightarrow> TState" where
  "markProcessed nodeID st = st\<lparr>processedNodes := (processedNodes st)(nodeID := True)\<rparr>"

text \<open>\<open>node.Depth = depth; graph.Nodes[nodeID] = node\<close>\<close>

definition storeNode :: "string \<Rightarrow> Node \<Rightarrow> int \<Rightarrow> TState \<Rightarrow> TState" where
  "storeNode nodeID node depth st = st\<lparr>nodes := (nodes st)(nodeID \<mapsto> node\<lparr>Depth := depth\<rparr>)\<rparr>"

text \<open>The Node \<open>processModuleBlocks\<close> builds for a block of a module directory.\<close>

definition moduleResourceNode ::
  "string \<Rightarrow> string \<Rightarrow> Block \<Rightarrow> string \<Rightarrow> string \<Rightarrow> Node"
where
  "moduleResourceNode moduleID currentID block name file =
     \<lparr>ID = moduleID @ ''/'' @ currentID, Type = BlockType block, Name = name, Path = file,
      References = extractReferences block file, Depth = 0\<rparr>"

definition nextRange :: "TState \<Rightarrow> TState" where
  "nextRange st = st\<lparr>rangeCount := Suc (rangeCount st)\<rparr>"

text \<open>\<open>fmt.Sprintf("module.%s", moduleName)\<close>\<close>

definition moduleIDOf :: "string \<Rightarrow> string" where
  "moduleIDOf moduleName = ''module.'' @ moduleName"

text \<open>
  Lines 19 to 23 of \<open>traverseNode\<close>: the second dot-separated piece of \<open>nodeID\<close>, cut
  again at its first dot (which it cannot contain).
\<close>

definition moduleNameOf :: "string \<Rightarrow> Panic + string" where
  "moduleNameOf nodeID =
     (case index (strings_Split nodeID CHR ''.'') 1 of
        Inl p \<Rightarrow> Inl p
      | Inr moduleName \<Rightarrow>
          (let parts = strings_SplitN2 moduleName CHR ''.'' in
           if length parts > 1 then index parts 0 else Inr moduleName))"

text \<open>The test both loops over references make before recursing.\<close>

definition isTerminalRef :: "string \<Rightarrow> bool" where
  "isTerminalRef refID =
     (strings_HasPrefix refID ''var.'' \<or> strings_HasPrefix refID ''local.'')"

text \<open>
  \<open>traverseReferences\<close> is the nested loop that ends \<open>traverseNode\<close>,
  \<open>traverseModuleFiles\<close> the loop of \<open>traverseModuleDirectory\<close> over the files, and
  \<open>processModuleRefList\<close> the nested loop of \<open>processModuleReferences\<close>; the loop of
  \<open>processModuleBlocks\<close> is the recursion of that function over its blocks.
\<close>

function
  traverseNode ::
    "World \<Rightarrow> int \<Rightarrow> string \<Rightarrow> string \<Rightarrow> int \<Rightarrow> TState \<Rightarrow> Panic + TState"
and traverseReferences ::
    "World \<Rightarrow> int \<Rightarrow> string \<Rightarrow> (string \<times> Reference) list \<Rightarrow> int \<Rightarrow> TState \<Rightarrow> Panic + TState"
and traverseModuleDirectory ::
    "World \<Rightarrow> int \<Rightarrow> string \<Rightarrow> string \<Rightarrow> int \<Rightarrow> TState \<Rightarrow> Panic + TState"
and traverseModuleFiles ::
    "World \<Rightarrow> int \<Rightarrow> string list \<Rightarrow> string \<Rightarrow> string \<Rightarrow> int \<Rightarrow> TState \<Rightarrow> Panic + TState"
and processModuleBlocks ::
    "World \<Rightarrow> int \<Rightarrow> Block list \<Rightarrow> string \<Rightarrow> string \<Rightarrow> int \<Rightarrow> string \<Rightarrow> TState
      \<Rightarrow> Panic + TState"
and processModuleReferences ::
    "World \<Rightarrow> int \<Rightarrow> References \<Rightarrow> string \<Rightarrow> int \<Rightarrow> string \<Rightarrow> TState \<Rightarrow> Panic + TState"
and processModuleRefList ::
    "World \<Rightarrow> int \<Rightarrow> (string \<times> Reference) list \<Rightarrow> string \<Rightarrow> int \<Rightarrow> string \<Rightarrow> TState
      \<Rightarrow> Panic + TState"
where
  "traverseNode w m basePath nodeID depth st =
     (if depth > m \<or> processedNodes st nodeID then Inr st
      else
        (case (if strings_HasPrefix nodeID ''module.'' then
                 (case moduleNameOf nodeID of
                    Inl p \<Rightarrow> Inl p
                  | Inr moduleName \<Rightarrow>
                      (case findModuleNode w basePath (moduleIDOf moduleName) of
                         Inl p \<Rightarrow> Inl p
                       | Inr (modulePath, moduleNode) \<Rightarrow>
                           if modulePath \<noteq> [] then
                             traverseModuleDirectory w m (resolvePath w basePath modulePath)
                               (moduleIDOf moduleName) depth
                               (storeNode nodeID moduleNode depth (markProcessed nodeID st))
                           else Inr (markProcessed nodeID st)))
               else Inr (markProcessed nodeID st)) of
           Inl p \<Rightarrow> Inl p
         | Inr st2 \<Rightarrow>
             (case findResourceNode w basePath nodeID of
                Inl p \<Rightarrow> Inl p
              | Inr None \<Rightarrow> Inr st2
              | Inr (Some node) \<Rightarrow>
                  traverseReferences w m basePath
                    (rangeReferences (rangeOrder w (rangeCount st2)) (References node)) depth
                    (nextRange (storeNode nodeID node depth st2)))))"
| "traverseReferences w m basePath [] depth st = Inr st"
| "traverseReferences w m basePath (cr # rest) depth st =
     (if \<not> isTerminalRef (RefID (snd cr)) then
        (case traverseNode w m basePath (RefID (snd cr)) (depth + 1) st of
           Inl p \<Rightarrow> Inl p
         | Inr st1 \<Rightarrow> traverseReferences w m basePath rest depth st1)
      else traverseReferences w m basePath rest depth st)"
| "traverseModuleDirectory w m moduleBasePath moduleID depth st =
     (if length (findTerraformFiles w moduleBasePath) = 0 then Inr st
      else traverseModuleFiles w m (findTerraformFiles w moduleBasePath)
             moduleBasePath moduleID depth st)"
| "traverseModuleFiles w m [] moduleBasePath moduleID depth st = Inr st"
| "traverseModuleFiles w m (file # files) moduleBasePath moduleID depth st =
     (case parseContent w file moduleDirSchema of
        None \<Rightarrow> traverseModuleFiles w m files moduleBasePath moduleID depth st
      | Some blocks \<Rightarrow>
          (case processModuleBlocks w m blocks file moduleID depth moduleBasePath st of
             Inl p \<Rightarrow> Inl p
           | Inr st1 \<Rightarrow> traverseModuleFiles w m files moduleBasePath moduleID depth st1))"
| "processModuleBlocks w m [] file moduleID depth moduleBasePath st = Inr st"
| "processModuleBlocks w m (block # blocks) file moduleID depth moduleBasePath st =
     (case getBlockID block of
        Inl p \<Rightarrow> Inl p
      | Inr currentID \<Rightarrow>
          if currentID = [] then
            processModuleBlocks w m blocks file moduleID depth moduleBasePath st
          else
            (case lastLabel block of
               Inl p \<Rightarrow> Inl p
             | Inr name \<Rightarrow>
                 (case processModuleReferences w m (extractReferences block file)
                         moduleID depth moduleBasePath
                         (storeNode (moduleID @ ''/'' @ currentID)
                            (moduleResourceNode moduleID currentID block name file)
                            (depth + 1) st) of
                    Inl p \<Rightarrow> Inl p
                  | Inr st1 \<Rightarrow>
                      processModuleBlocks w m blocks file moduleID depth moduleBasePath st1)))"
| "processModuleReferences w m refs moduleID depth moduleBasePath st =
     processModuleRefList w m (rangeReferences (rangeOrder w (rangeCount st)) refs)
       moduleID depth moduleBasePath (nextRange st)"
| "processModuleRefList w m [] moduleID depth moduleBasePath st = Inr st"
| "processModuleRefList w m (cr # rest) moduleID depth moduleBasePath st =
     (if \<not> isTerminalRef (RefID (snd cr)) \<and>
         \<not> processedNodes st (moduleID @ ''/'' @ RefID (snd cr)) then
        (case traverseNode w m moduleBasePath (moduleID @ ''/'' @ RefID (snd cr)) (depth + 1) st of
           Inl p \<Rightarrow> Inl p
         | Inr st1 \<Rightarrow> processModuleRefList w m rest moduleID depth moduleBasePath st1)
      else processModuleRefList w m rest moduleID depth moduleBasePath st)"
  by pat_completeness auto

text \<open>
  Every nested call of \<open>traverseNode\<close> is one level deeper, and no call beyond \<open>m\<close>
  recurses: the recursion ends whatever the visited set holds.
\<close>

termination
proof (relation "inv_image (less_than <*lex*> less_than)
    (\<lambda>x. case x of
       Inl (Inl (w, m, basePath, nodeID, depth, st)) \<Rightarrow> (8 * nat (m + 1 - depth), 0)
     | Inl (Inr (Inl (w, m, basePath, refs, depth, st))) \<Rightarrow>
         (8 * nat (m - depth) + 1, length refs)
     | Inl (Inr (Inr (w, m, moduleBasePath, moduleID, depth, st))) \<Rightarrow>
         (8 * nat (m - depth) + 6, 0)
     | Inr (Inl (Inl (w, m, files, moduleBasePath, moduleID, depth, st))) \<Rightarrow>
         (8 * nat (m - depth) + 5, length files)
     | Inr (Inl (Inr (w, m, blocks, file, moduleID, depth, moduleBasePath, st))) \<Rightarrow>
         (8 * nat (m - depth) + 4, length blocks)
     | Inr (Inr (Inl (w, m, refs, moduleID, depth, moduleBasePath, st))) \<Rightarrow>
         (8 * nat (m - depth) + 3, 0)
     | Inr (Inr (Inr (w, m, refs, moduleID, depth, moduleBasePath, st))) \<Rightarrow>
         (8 * nat (m - depth) + 2, length refs))")
qed (auto simp: nat_diff_distrib)

text \<open>
  The two halves of \<open>traverseNode\<close> after the guard, named so that theorems can speak
  of them: \<open>expandModule\<close> is the module step (lines 17 to 39), \<open>traverseDeclaration\<close>
  the rest (lines 41 to 56).
\<close>

definition expandModule ::
  "World \<Rightarrow> int \<Rightarrow> string \<Rightarrow> string \<Rightarrow> int \<Rightarrow> TState \<Rightarrow> Panic + TState"
where
  "expandModule w m basePath nodeID depth st =
     (if strings_HasPrefix nodeID ''module.'' then
        (case moduleNameOf nodeID of
           Inl p \<Rightarrow> Inl p
         | Inr moduleName \<Rightarrow>
             (case findModuleNode w basePath (moduleIDOf moduleName) of
                Inl p \<Rightarrow> Inl p
              | Inr (modulePath, moduleNode) \<Rightarrow>
                  if modulePath \<noteq> [] then
                    traverseModuleDirectory w m (resolvePath w basePath modulePath)
                      (moduleIDOf moduleName) depth (storeNode nodeID moduleNode depth st)
                  else Inr st))
      else Inr st)"

definition traverseDeclaration ::
  "World \<Rightarrow> int \<Rightarrow> string \<Rightarrow> string \<Rightarrow> int \<Rightarrow> TState \<Rightarrow> Panic + TState"
where
  "traverseDeclaration w m basePath nodeID depth st =
     (case findResourceNode w basePath nodeID of
        Inl p \<Rightarrow> Inl p
      | Inr None \<Rightarrow> Inr st
      | Inr (Some node) \<Rightarrow>
          traverseReferences w m basePath
            (rangeReferences (rangeOrder w (rangeCount st)) (References node)) depth
            (nextRange (storeNode nodeID node depth st)))"

text \<open>\<open>buildDependencyGraph\<close> creates the visited set and starts at depth 0.\<close>

definition initialState :: "Graph \<Rightarrow> TState" where
  "initialState graph = \<lparr>nodes = Nodes graph, processedNodes = (\<lambda>_. False), rangeCount = 0\<rparr>"

definition buildDependencyGraph :: "World \<Rightarrow> Graph \<Rightarrow> string \<Rightarrow> string \<Rightarrow> Panic + Graph" where
  "buildDependencyGraph w graph basePath targetID =
     (case traverseNode w (MaxDepth graph) basePath targetID 0 (initialState graph) of
        Inl p \<Rightarrow> Inl p
      | Inr st \<Rightarrow> Inr (graph\<lparr>Nodes := nodes st\<rparr>))"

text \<open>The graph \<open>main\<close> creates.\<close>

definition newGraph :: "int \<Rightarrow> Graph" where
  "newGraph maxDepth = \<lparr>Nodes = Map.empty, MaxDepth = maxDepth\<rparr>"

section \<open>Diagram Serializer (graph.go)\<close>

text \<open>
  The serializer ranges three times over \<open>graph.Nodes\<close> and, inside two of these
  loops, over the node's \<open>References\<close>. The order of each loop is Go's choice, given
  here by \<open>DotOrder\<close>: the keys of \<open>graph.Nodes\<close> in the order of each of the three
  loops, and for each node key the categories in the order of the inner loop. A key
  that an order lists without it being in the map is skipped.
\<close>

record DotOrder =
  mainOrder :: "string list"
  refOrder :: "string list"
  refCategories :: "string \<Rightarrow> string list"
  depOrder :: "string list"
  depCategories :: "string \<Rightarrow> string list"

definition rangeNodes :: "string list \<Rightarrow> Graph \<Rightarrow> (string \<times> Node) list" where
  "rangeNodes keys graph = List.map_filter (\<lambda>k. map_option (Pair k) (Nodes graph k)) keys"

definition dq :: char where "dq = CHR 0x22"
definition nl :: char where "nl = CHR 0x0A"
definition bs :: char where "bs = CHR 0x5C"

definition colors :: "string \<rightharpoonup> string" where
  "colors = map_of
     [(''variable'', ''#FFB6C1''),
      (''module'', ''#98FB98''),
      (''data'', ''#87CEEB''),
      (''resource'', ''#DDA0DD''),
      (''output'', ''#FFA07A'')]"

definition colorOf :: "string \<Rightarrow> string" where
  "colorOf category =
     (let color = (case colors category of None \<Rightarrow> [] | Some c \<Rightarrow> c) in
      if color = [] then ''#DCDCDC'' else color)"

text \<open>The three \<open>Sprintf\<close> formats.\<close>

definition mainNodeLine :: "string \<Rightarrow> Node \<Rightarrow> string" where
  "mainNodeLine k node =
     ''  '' @ [dq] @ k @ [dq] @ '' [label='' @ [dq] @ k @ [bs] @ ''n('' @ Path node @ '')'' @ [dq]
       @ '', color=red];'' @ [nl]"

definition refNodeLine :: "Reference \<Rightarrow> string \<Rightarrow> string" where
  "refNodeLine ref color =
     ''  '' @ [dq] @ RefID ref @ [dq] @ '' [label='' @ [dq] @ RefID ref @ [bs] @ ''n(''
       @ RefPath ref @ '')'' @ [dq] @ '', fillcolor='' @ [dq] @ color @ [dq] @ '', style='' @ [dq]
       @ ''filled,rounded'' @ [dq] @ ''];'' @ [nl]"

definition edgeLine :: "Reference \<Rightarrow> string \<Rightarrow> string" where
  "edgeLine ref nodeID =
     ''  '' @ [dq] @ RefID ref @ [dq] @ '' -> '' @ [dq] @ nodeID @ [dq] @ '' [style=solid];'' @ [nl]"

definition writeNodeStyles :: string where
  "writeNodeStyles = ''  // Node styles'' @ [nl] @ ''  node [shape=box, style=rounded];'' @ [nl, nl]"

definition writeMainNode :: "string \<times> Node \<Rightarrow> string" where
  "writeMainNode kn = (if Depth (snd kn) = 0 then mainNodeLine (fst kn) (snd kn) else [])"

definition writeReferenced :: "DotOrder \<Rightarrow> string \<times> Node \<Rightarrow> string" where
  "writeReferenced ord kn =
     (if Depth (snd kn) = 0 then
        concat (map (\<lambda>cr. refNodeLine (snd cr) (colorOf (fst cr)))
                  (rangeReferences (refCategories ord (fst kn)) (References (snd kn))))
      else [])"

definition writeNodes :: "DotOrder \<Rightarrow> Graph \<Rightarrow> string" where
  "writeNodes ord graph =
     concat (map writeMainNode (rangeNodes (mainOrder ord) graph))
     @ [nl] @ ''  // Referenced nodes'' @ [nl]
     @ concat (map (writeReferenced ord) (rangeNodes (refOrder ord) graph))"

definition writeEdges :: "DotOrder \<Rightarrow> string \<times> Node \<Rightarrow> string" where
  "writeEdges ord kn =
     (if Depth (snd kn) = 0 then
        concat (map (\<lambda>cr. edgeLine (snd cr) (ID (snd kn)))
                  (rangeReferences (depCategories ord (fst kn)) (References (snd kn))))
      else [])"

definition writeDependencies :: "DotOrder \<Rightarrow> Graph \<Rightarrow> string" where
  "writeDependencies ord graph =
     [nl] @ ''  // Dependencies'' @ [nl]
     @ concat (map (writeEdges ord) (rangeNodes (depOrder ord) graph))"

definition generateDOT :: "DotOrder \<Rightarrow> Graph \<Rightarrow> string" where
  "generateDOT ord graph =
     ''digraph terraform {'' @ [nl] @ ''  rankdir = LR;'' @ [nl] @ ''  compound = true;'' @ [nl, nl]
     @ writeNodeStyles @ writeNodes ord graph @ writeDependencies ord graph
     @ ''}'' @ [nl]"

section \<open>The program (main.go)\<close>

text \<open>
  What \<open>main\<close> does between checking its flags and writing the output file, for
  the format \<open>dot\<close> (it has no other): it creates the graph, joins the flags
  \<open>-type\<close> and \<open>-name\<close> with a dot into the target identifier, builds the graph
  from the base directory (\<open>filepath.Dir\<close> of the flag \<open>-path\<close>, here the argument
  \<open>basePath\<close>) and serializes it. The order of the serializer's loops is the
  argument \<open>ord\<close>.
\<close>

definition mainContent ::
  "World \<Rightarrow> DotOrder \<Rightarrow> int \<Rightarrow> string \<Rightarrow> string \<Rightarrow> string \<Rightarrow> Panic + string"
where
  "mainContent w ord maxDepth basePath resourceType resourceName =
     (case buildDependencyGraph w (newGraph maxDepth) basePath
             (resourceType @ ''.'' @ resourceName) of
        Inl p \<Rightarrow> Inl p
      | Inr graph \<Rightarrow> Inr (generateDOT ord graph))"

section \<open>Notions used to state the properties\<close>

text \<open>All the traversals of a block, in the order \<open>extractReferences\<close> meets them.\<close>

definition blockTraversals :: "Block \<Rightarrow> Traversal list" where
  "blockTraversals block = concat (map (\<lambda>attr. Variables (snd attr)) (Attrs block))"

text \<open>The category of a dotted path, by its first segment.\<close>

definition refCategory :: "string \<Rightarrow> string" where
  "refCategory ref =
     (let pre = takeWhile (\<lambda>x. x \<noteq> CHR ''.'') ref in
      if pre = ''var'' then ''variable''
      else if pre = ''module'' then ''module''
      else if pre = ''data'' then ''data''
      else ''resource'')"

text \<open>
  The References a block offers before deduplication: one per traversal whose dotted
  path has a dot, in order.
\<close>

definition candidateReferences :: "Block \<Rightarrow> string \<Rightarrow> Reference list" where
  "candidateReferences block filePath =
     map (\<lambda>ref. \<lparr>RefID = ref, RefPath = filePath\<rparr>)
       (filter (\<lambda>ref. CHR ''.'' \<in> set ref) (map traversalToReference (blockTraversals block)))"

text \<open>
  From the specification: "dedupe by identifier, first occurrence wins". The first
  Reference of each identifier is kept, in the order of first occurrence.
\<close>

fun spec_firstSeen :: "Reference list \<Rightarrow> Reference list" where
  "spec_firstSeen [] = []"
| "spec_firstSeen (r # rs) = r # spec_firstSeen (filter (\<lambda>q. RefID q \<noteq> RefID r) rs)"

text \<open>
  From the specification: "truncate the path to at most its first two dot-separated
  segments".
\<close>

definition spec_truncate2 :: "string \<Rightarrow> string" where
  "spec_truncate2 ref = strings_Join (take 2 (strings_Split ref CHR ''.'')) ''.''"

text \<open>
  What a part of the traversal may do to the state: the visited set only grows, and
  a key whose Node changes was not visited before the part began, or is the key of a
  declaration inside a module (it holds the separator \<open>/\<close>); the Node then stored
  satisfies \<open>ok\<close>.
\<close>

definition changes :: "(string \<Rightarrow> Node \<Rightarrow> bool) \<Rightarrow> TState \<Rightarrow> TState \<Rightarrow> bool" where
  "changes ok st st' \<longleftrightarrow>
     (\<forall>k. processedNodes st k \<longrightarrow> processedNodes st' k) \<and>
     (\<forall>k. nodes st' k \<noteq> nodes st k \<longrightarrow>
        (CHR ''/'' \<in> set k \<or> \<not> processedNodes st k) \<and> (\<exists>n. nodes st' k = Some n \<and> ok k n))"

definition deeper :: "int \<Rightarrow> string \<Rightarrow> Node \<Rightarrow> bool" where
  "deeper d k n \<longleftrightarrow> d < Depth n"

definition visitOf :: "int \<Rightarrow> string \<Rightarrow> string \<Rightarrow> Node \<Rightarrow> bool" where
  "visitOf d nodeID k n \<longleftrightarrow> d < Depth n \<or> (k = nodeID \<and> Depth n = d)"

text \<open>The Nodes of depth 0, the only ones the serializer reads.\<close>

definition rootNodes :: "Graph \<Rightarrow> (string \<rightharpoonup> Node)" where
  "rootNodes graph =
     (\<lambda>k. case Nodes graph k of
            None \<Rightarrow> None
          | Some n \<Rightarrow> if Depth n = 0 then Some n else None)"

text \<open>
  The blocks the Module Resolver reads in a base directory, and the test that a block
  has a \<open>source\<close> attribute whose value is a string that does not begin with a dot.
\<close>

definition moduleCallBlocks :: "World \<Rightarrow> string \<Rightarrow> Block list" where
  "moduleCallBlocks w basePath =
     concat (map (\<lambda>file. case parseContent w file moduleCallSchema of
                           None \<Rightarrow> []
                         | Some blocks \<Rightarrow> blocks)
                 (findTerraformFiles w basePath))"

definition nonRelativeSource :: "Block \<Rightarrow> bool" where
  "nonRelativeSource block =
     (case map_of (Attrs block) ''source'' of
        None \<Rightarrow> False
      | Some e \<Rightarrow>
          (case ExprValue e of
             Some (CtyString s) \<Rightarrow> \<not> strings_HasPrefix s ''.''
           | _ \<Rightarrow> False))"

text \<open>
  What the HCL library guarantees of the blocks it returns for a schema, as far as
  the program relies on it: a block has the labels of its type, and the \<open>source\<close>
  of a block, when it has a value, is a string. In a world with these two
  properties no index is out of range and \<open>AsString\<close> does not panic.
\<close>

definition labelsFit :: "Block \<Rightarrow> bool" where
  "labelsFit block \<longleftrightarrow>
     (BlockType block = ''resource'' \<or> BlockType block = ''data'' \<longrightarrow> 2 \<le> length (Labels block)) \<and>
     (BlockType block = ''module'' \<or> BlockType block = ''output'' \<longrightarrow> 1 \<le> length (Labels block))"

definition sourceIsString :: "Block \<Rightarrow> bool" where
  "sourceIsString block \<longleftrightarrow>
     (case map_of (Attrs block) ''source'' of
        None \<Rightarrow> True
      | Some e \<Rightarrow> ExprValue e \<noteq> Some CtyOther)"

definition wellFormedWorld :: "World \<Rightarrow> bool" where
  "wellFormedWorld w \<longleftrightarrow>
     (\<forall>file schema blocks. parseContent w file schema = Some blocks \<longrightarrow>
        (\<forall>b \<in> set blocks. labelsFit b \<and> sourceIsString b))"

text \<open>
  No identifier of a declaration holds the separator \<open>/\<close>, which the program puts
  between a module identifier and the identifier of a declaration of the module.
\<close>

definition plainIdentifiers :: "World \<Rightarrow> bool" where
  "plainIdentifiers w \<longleftrightarrow>
     (\<forall>file blocks. parseContent w file locatorSchema = Some blocks \<longrightarrow>
        (\<forall>b \<in> set blocks. \<forall>i. getBlockID b = Inr i \<longrightarrow> CHR ''/'' \<notin> set i))"

text \<open>
  Between two states of a traversal from the base directory \<open>root\<close>: every
  identifier without \<open>/\<close> that entered the visited set has a Node, unless the Locator
  finds no declaration for it.
\<close>

definition settled :: "World \<Rightarrow> string \<Rightarrow> TState \<Rightarrow> TState \<Rightarrow> bool" where
  "settled w root st st' \<longleftrightarrow>
     (\<forall>k. processedNodes st' k \<and> \<not> processedNodes st k \<and> CHR ''/'' \<notin> set k \<longrightarrow>
          nodes st' k \<noteq> None \<or> findResourceNode w root k = Inr None)"



section \<open>Example configurations\<close>

text \<open>
  Concrete worlds for the examples below. \<open>hclContent\<close> is how the HCL library
  answers \<open>Body.Content\<close>: an error when the file has a block whose type the schema
  lacks or whose number of labels differs from the schema's, the blocks otherwise.
  The examples need \<open>filepath.Join\<close> only for a base directory and a path that is
  clean but for a leading \<open>./\<close>, and \<open>filepath.Clean\<close> only for clean paths; a
  path is absolute when it begins with \<open>/\<close>, and \<open>filepath.Walk\<close> lists a
  directory with all that lies below it.
\<close>

definition hclContent :: "Block list \<Rightarrow> Schema \<Rightarrow> Block list option" where
  "hclContent blocks schema =
     (if list_all (\<lambda>b. map_option length (map_of schema (BlockType b)) = Some (length (Labels b)))
           blocks
      then Some blocks else None)"

definition exampleWorld ::
  "(string \<times> (string \<times> string) list) list \<Rightarrow> (string \<times> Block list) list \<Rightarrow> string list
     \<Rightarrow> string list \<Rightarrow> World"
where
  "exampleWorld dirs files existing order =
     \<lparr>walk = map_of dirs,
      parseContent = (\<lambda>file schema. case map_of files file of
                         None \<Rightarrow> None
                       | Some blocks \<Rightarrow> hclContent blocks schema),
      statOk = (\<lambda>p. p \<in> set existing),
      filepath_Join = (\<lambda>a b. a @ ''/'' @ (if prefix ''./'' b then drop 2 b else b)),
      filepath_IsAbs = (\<lambda>p. prefix ''/'' p),
      filepath_Clean = (\<lambda>p. p),
      rangeOrder = (\<lambda>n. order)\<rparr>"

text \<open>An expression that mentions the given dotted paths, and a string literal.\<close>

definition refExpr :: "string list list \<Rightarrow> Expr" where
  "refExpr paths =
     \<lparr>Variables = map (\<lambda>p. TraverseRoot (hd p) # map TraverseAttr (tl p)) paths,
      ExprValue = None\<rparr>"

definition literalExpr :: "string \<Rightarrow> Expr" where
  "literalExpr s = \<lparr>Variables = [], ExprValue = Some (CtyString s)\<rparr>"

text \<open>\<open>resource "aws_eip" "ip" { instance = aws_instance.foo.id }\<close>\<close>

definition eipBlock :: Block where
  "eipBlock = \<lparr>BlockType = ''resource'', Labels = [''aws_eip'', ''ip''],
     Attrs = [(''instance'', refExpr [[''aws_instance'', ''foo'', ''id'']])]\<rparr>"

text \<open>A block that mentions \<open>aws_instance.a\<close> twice, around \<open>aws_instance.b\<close> and a variable.\<close>

definition repeatBlock :: Block where
  "repeatBlock = \<lparr>BlockType = ''resource'', Labels = [''aws_lb'', ''front''],
     Attrs = [(''first'', refExpr [[''aws_instance'', ''a''], [''var'', ''zone'']]),
              (''second'', refExpr [[''aws_instance'', ''b''], [''aws_instance'', ''a'']])]\<rparr>"

text \<open>
  \<open>cycleWorld\<close>: two resources that mention each other.
  \<open>moduleWorld\<close>: a resource that uses two outputs of the module \<open>net\<close>, one of
  them through a second resource; the module call has the source \<open>./net\<close>, and the
  directory holds one resource. \<open>depthAt\<close>, \<open>depthIn\<close> and \<open>andThen\<close> read
  results and chain two visits.
\<close>

definition moduleWorld :: World where
  "moduleWorld = exampleWorld
     [(''/cfg'', [(''/cfg'', ''cfg''), (''/cfg/main.tf'', ''main.tf''),
                  (''/cfg/modules.tf'', ''modules.tf''), (''/cfg/net'', ''net''),
                  (''/cfg/net/main.tf'', ''main.tf'')]),
      (''/cfg/net'', [(''/cfg/net'', ''net''), (''/cfg/net/main.tf'', ''main.tf'')])]
     [(''/cfg/main.tf'',
        [\<lparr>BlockType = ''resource'', Labels = [''aws_instance'', ''r''],
          Attrs = [(''subnet'', refExpr [[''module'', ''net'', ''id'']]),
                   (''ip'', refExpr [[''aws_eip'', ''x'']])]\<rparr>,
         \<lparr>BlockType = ''resource'', Labels = [''aws_eip'', ''x''],
          Attrs = [(''zone'', refExpr [[''module'', ''net'', ''name'']])]\<rparr>]),
      (''/cfg/modules.tf'',
        [\<lparr>BlockType = ''module'', Labels = [''net''],
          Attrs = [(''source'', literalExpr ''./net'')]\<rparr>]),
      (''/cfg/net/main.tf'',
        [\<lparr>BlockType = ''resource'', Labels = [''aws_subnet'', ''s''],
          Attrs = [(''cidr'', refExpr [[''var'', ''cidr'']])]\<rparr>])]
     [''/cfg/net''] [''module'', ''resource'', ''variable'', ''data'']"

definition depthAt :: "Panic + Graph \<Rightarrow> string \<Rightarrow> int option" where
  "depthAt r k = (case r of Inl p \<Rightarrow> None | Inr g \<Rightarrow> map_option Depth (Nodes g k))"

definition depthIn :: "Panic + TState \<Rightarrow> string \<Rightarrow> int option" where
  "depthIn r k = (case r of Inl p \<Rightarrow> None | Inr st \<Rightarrow> map_option Depth (nodes st k))"

definition andThen :: "Panic + TState \<Rightarrow> (TState \<Rightarrow> Panic + TState) \<Rightarrow> Panic + TState" where
  "andThen r f = (case r of Inl p \<Rightarrow> Inl p | Inr st \<Rightarrow> f st)"

definition cycleWorld :: World where
  "cycleWorld = exampleWorld
     [(''/cfg'', [(''/cfg'', ''cfg''), (''/cfg/main.tf'', ''main.tf'')])]
     [(''/cfg/main.tf'',
        [\<lparr>BlockType = ''resource'', Labels = [''aws_instance'', ''a''],
          Attrs = [(''peer'', refExpr [[''aws_instance'', ''b'']])]\<rparr>,
         \<lparr>BlockType = ''resource'', Labels = [''aws_instance'', ''b''],
          Attrs = [(''peer'', refExpr [[''aws_instance'', ''a'']])]\<rparr>])]
     [] [''variable'', ''module'', ''data'', ''resource'']"

text \<open>
  \<open>resource "aws_instance" "web" { tags = local.tags, ami = var.ami }\<close>, the graph
  of a run on it with one deeper Node added, and an order for the loops of the
  serializer.
\<close>

definition webBlock :: Block where
  "webBlock = \<lparr>BlockType = ''resource'', Labels = [''aws_instance'', ''web''],
     Attrs = [(''tags'', refExpr [[''local'', ''tags'']]), (''ami'', refExpr [[''var'', ''ami'']])]\<rparr>"

definition localRef :: Reference where
  "localRef = \<lparr>RefID = ''local.tags'', RefPath = ''/cfg/main.tf''\<rparr>"

definition webNode :: Node where
  "webNode = \<lparr>ID = ''aws_instance.web'', Type = ''resource'', Name = ''web'',
     Path = ''/cfg/main.tf'',
     References = [''resource'' \<mapsto> [\<lparr>RefID = ''local.tags'', RefPath = ''/cfg/main.tf''\<rparr>],
                   ''variable'' \<mapsto> [\<lparr>RefID = ''var.ami'', RefPath = ''/cfg/main.tf''\<rparr>]],
     Depth = 0\<rparr>"

definition webGraph :: Graph where
  "webGraph = \<lparr>Nodes = [''aws_instance.web'' \<mapsto> webNode,
     ''aws_eip.x'' \<mapsto> \<lparr>ID = ''aws_eip.x'', Type = ''resource'', Name = ''x'',
        Path = ''/cfg/main.tf'',
        References = [''resource'' \<mapsto> [\<lparr>RefID = ''aws_instance.web'', RefPath = ''/cfg/main.tf''\<rparr>]],
        Depth = 1\<rparr>], MaxDepth = 3\<rparr>"

definition webOrder :: DotOrder where
  "webOrder = \<lparr>mainOrder = [''aws_eip.x'', ''aws_instance.web''],
     refOrder = [''aws_instance.web'', ''aws_eip.x''],
     refCategories = (\<lambda>k. [''variable'', ''resource'']),
     depOrder = [''aws_eip.x'', ''aws_instance.web''],
     depCategories = (\<lambda>k. [''resource'', ''variable''])\<rparr>"

text \<open>
  \<open>registryWorld\<close>: the module \<open>net\<close> is called with a registry source.
  \<open>shadowedWorld\<close>: the same call, and below the base directory a second call of
  the same name with the source \<open>./net\<close>.
\<close>

definition registryCall :: Block where
  "registryCall = \<lparr>BlockType = ''module'', Labels = [''net''],
     Attrs = [(''source'', literalExpr ''registry.example.com/ns/net'')]\<rparr>"

definition registryWorld :: World where
  "registryWorld = exampleWorld
     [(''/cfg'', [(''/cfg'', ''cfg''), (''/cfg/main.tf'', ''main.tf''),
                  (''/cfg/modules.tf'', ''modules.tf'')])]
     [(''/cfg/main.tf'',
        [\<lparr>BlockType = ''resource'', Labels = [''aws_instance'', ''r''],
          Attrs = [(''subnet'', refExpr [[''module'', ''net'', ''id'']])]\<rparr>]),
      (''/cfg/modules.tf'', [registryCall])]
     [] [''module'', ''resource'', ''variable'', ''data'']"

definition shadowedWorld :: World where
  "shadowedWorld = exampleWorld
     [(''/cfg'', [(''/cfg'', ''cfg''), (''/cfg/modules.tf'', ''modules.tf''),
                  (''/cfg/examples'', ''examples''),
                  (''/cfg/examples/modules.tf'', ''modules.tf''),
                  (''/cfg/net'', ''net''), (''/cfg/net/main.tf'', ''main.tf'')]),
      (''/cfg/net'', [(''/cfg/net'', ''net''), (''/cfg/net/main.tf'', ''main.tf'')])]
     [(''/cfg/modules.tf'', [registryCall]),
      (''/cfg/examples/modules.tf'',
        [\<lparr>BlockType = ''module'', Labels = [''net''],
          Attrs = [(''source'', literalExpr ''./net'')]\<rparr>]),
      (''/cfg/net/main.tf'',
        [\<lparr>BlockType = ''resource'', Labels = [''aws_subnet'', ''s''],
          Attrs = [(''cidr'', refExpr [[''var'', ''cidr'']])]\<rparr>])]
     [''/cfg/net''] [''module'', ''resource'', ''variable'', ''data'']"

definition nodesOf :: "Panic + Graph \<Rightarrow> string \<Rightarrow> Node option" where
  "nodesOf r k = (case r of Inl p \<Rightarrow> None | Inr g \<Rightarrow> Nodes g k)"

text \<open>
  \<open>attributeWorld\<close>: the two resources of \<open>cycleWorld\<close>, each mentioning the
  attribute \<open>id\<close> of the other.
\<close>

definition attributeWorld :: World where
  "attributeWorld = exampleWorld
     [(''/cfg'', [(''/cfg'', ''cfg''), (''/cfg/main.tf'', ''main.tf'')])]
     [(''/cfg/main.tf'',
        [\<lparr>BlockType = ''resource'', Labels = [''aws_instance'', ''a''],
          Attrs = [(''peer'', refExpr [[''aws_instance'', ''b'', ''id'']])]\<rparr>,
         \<lparr>BlockType = ''resource'', Labels = [''aws_instance'', ''b''],
          Attrs = [(''peer'', refExpr [[''aws_instance'', ''a'', ''id'']])]\<rparr>])]
     [] [''variable'', ''module'', ''data'', ''resource'']"




text \<open>
  \<open>webWorld\<close>: a directory with the one block \<open>webBlock\<close>. \<open>localModuleWorld\<close>:
  a call of the module \<open>net\<close> that passes \<open>local.tags\<close>. \<open>everyOrder\<close> lets all
  loops of the serializer run in one order, and \<open>contentHas\<close> tests that the
  program's output holds a line.
\<close>

definition webWorld :: World where
  "webWorld = exampleWorld
     [(''/cfg'', [(''/cfg'', ''cfg''), (''/cfg/main.tf'', ''main.tf'')])]
     [(''/cfg/main.tf'', [webBlock])]
     [] [''variable'', ''module'', ''data'', ''resource'']"

definition localModuleWorld :: World where
  "localModuleWorld = exampleWorld
     [(''/cfg'', [(''/cfg'', ''cfg''), (''/cfg/modules.tf'', ''modules.tf''),
                  (''/cfg/net'', ''net''), (''/cfg/net/main.tf'', ''main.tf'')]),
      (''/cfg/net'', [(''/cfg/net'', ''net''), (''/cfg/net/main.tf'', ''main.tf'')])]
     [(''/cfg/modules.tf'',
        [\<lparr>BlockType = ''module'', Labels = [''net''],
          Attrs = [(''source'', literalExpr ''./net''),
                   (''tags'', refExpr [[''local'', ''tags'']])]\<rparr>]),
      (''/cfg/net/main.tf'',
        [\<lparr>BlockType = ''resource'', Labels = [''aws_subnet'', ''s''],
          Attrs = [(''cidr'', refExpr [[''var'', ''cidr'']])]\<rparr>])]
     [''/cfg/net''] [''module'', ''resource'', ''variable'', ''data'']"

definition everyOrder :: "string list \<Rightarrow> DotOrder" where
  "everyOrder keys = \<lparr>mainOrder = keys, refOrder = keys,
     refCategories = (\<lambda>k. [''variable'', ''module'', ''data'', ''resource'']),
     depOrder = keys,
     depCategories = (\<lambda>k. [''variable'', ''module'', ''data'', ''resource''])\<rparr>"

definition contentHas :: "Panic + string \<Rightarrow> string \<Rightarrow> bool" where
  "contentHas r line = (case r of Inl p \<Rightarrow> False | Inr content \<Rightarrow> sublist line content)"

section \<open>Facts about the string functions\<close>

lemma strings_SplitN2_nonempty: "strings_SplitN2 s c \<noteq> []"
  by (simp add: strings_SplitN2_def)

section \<open>The Reference Extractor\<close>

lemma refsAt_upd: "refsAt (refs(c \<mapsto> rs)) c' = (if c' = c then rs else refsAt refs c')"
  by (simp add: refsAt_def)

lemma refsAt_empty: "refsAt Map.empty c = []"
  by (simp add: refsAt_def)

text \<open>The four branches of the \<open>switch\<close> differ only in the category.\<close>

lemma addReference_cases:
  "addReference f refs v =
     (let ref = traversalToReference v in
      if CHR ''.'' \<in> set ref then
        refs(refCategory ref \<mapsto>
          appendUniqueReference (refsAt refs (refCategory ref)) \<lparr>RefID = ref, RefPath = f\<rparr>)
      else refs)"
  by (auto simp: addReference_def Let_def strings_SplitN2_def refCategory_def)

lemma refsAt_addReference:
  "refsAt (addReference f refs v) c =
     (if CHR ''.'' \<in> set (traversalToReference v) \<and> refCategory (traversalToReference v) = c
      then appendUniqueReference (refsAt refs c) \<lparr>RefID = traversalToReference v, RefPath = f\<rparr>
      else refsAt refs c)"
  by (auto simp: addReference_cases Let_def refsAt_upd)

lemma extractReferences_foldl:
  "extractReferences block f = foldl (addReference f) Map.empty (blockTraversals block)"
proof -
  have "\<And>acc. foldl (\<lambda>refs attr. foldl (addReference f) refs (Variables (snd attr))) acc as =
      foldl (addReference f) acc (concat (map (\<lambda>attr. Variables (snd attr)) as))" for as
    by (induction as) simp_all
  then show ?thesis by (simp add: extractReferences_def blockTraversals_def)
qed

lemma refsAt_foldl_addReference:
  "refsAt (foldl (addReference f) refs vs) c =
     foldl appendUniqueReference (refsAt refs c)
       (filter (\<lambda>r. refCategory (RefID r) = c)
          (map (\<lambda>ref. \<lparr>RefID = ref, RefPath = f\<rparr>)
             (filter (\<lambda>ref. CHR ''.'' \<in> set ref) (map traversalToReference vs))))"
  by (induction vs arbitrary: refs) (simp_all add: refsAt_addReference)

lemma appendUniqueReference_old:
  "RefID r \<in> RefID ` set acc \<Longrightarrow> appendUniqueReference acc r = acc"
  by (simp add: appendUniqueReference_def)

lemma appendUniqueReference_new:
  "RefID r \<notin> RefID ` set acc \<Longrightarrow> appendUniqueReference acc r = acc @ [r]"
  by (simp add: appendUniqueReference_def)

lemma foldl_appendUnique:
  "foldl appendUniqueReference acc rs =
     acc @ spec_firstSeen (filter (\<lambda>r. RefID r \<notin> RefID ` set acc) rs)"
proof (induction rs arbitrary: acc)
  case Nil
  then show ?case by simp
next
  case (Cons r rs)
  show ?case
  proof (cases "RefID r \<in> RefID ` set acc")
    case True
    then show ?thesis by (simp add: Cons.IH appendUniqueReference_old)
  next
    case False
    have "filter (\<lambda>q. RefID q \<notin> RefID ` set (acc @ [r])) rs =
        filter (\<lambda>q. RefID q \<noteq> RefID r) (filter (\<lambda>q. RefID q \<notin> RefID ` set acc) rs)"
      by (induction rs) auto
    with False show ?thesis by (simp add: Cons.IH appendUniqueReference_new)
  qed
qed

lemma set_spec_firstSeen: "set (spec_firstSeen rs) \<subseteq> set rs"
proof (induction rs rule: spec_firstSeen.induct)
  case 1
  then show ?case by simp
next
  case (2 r rs)
  then show ?case by auto
qed

lemma RefID_spec_firstSeen: "RefID ` set (spec_firstSeen rs) = RefID ` set rs"
proof (induction rs rule: spec_firstSeen.induct)
  case 1
  then show ?case by simp
next
  case (2 r rs)
  then show ?case by auto
qed

lemma distinct_spec_firstSeen: "distinct (map RefID (spec_firstSeen rs))"
proof (induction rs rule: spec_firstSeen.induct)
  case 1
  then show ?case by simp
next
  case (2 r rs)
  have "RefID r \<notin> RefID ` set (spec_firstSeen (filter (\<lambda>q. RefID q \<noteq> RefID r) rs))"
    using set_spec_firstSeen [of "filter (\<lambda>q. RefID q \<noteq> RefID r) rs"] by auto
  with 2 show ?case by simp
qed

lemma refsAt_extractReferences:
  "refsAt (extractReferences block f) c =
     spec_firstSeen (filter (\<lambda>r. refCategory (RefID r) = c) (candidateReferences block f))"
  by (simp add: extractReferences_foldl refsAt_foldl_addReference foldl_appendUnique
      candidateReferences_def refsAt_empty)

lemma RefID_extractReferences:
  "RefID ` set (refsAt (extractReferences block file) category) =
     {ref \<in> traversalToReference ` set (blockTraversals block).
        CHR ''.'' \<in> set ref \<and> refCategory ref = category}"
  by (force simp: refsAt_extractReferences RefID_spec_firstSeen candidateReferences_def)

lemmas example_exprs = refExpr_def literalExpr_def

lemmas extractor_defs =
  extractReferences_def addReference_def traversalToReference_def strings_SplitN2_def
  refsAt_def appendUniqueReference_def Let_def

text \<open>
  C6. In every category of the References that \<open>extractReferences\<close> returns for a
  block, no two References have the same identifier, and the sequence is the block's
  References of that category in first-seen order: of several with one identifier
  the first is kept, with its file path, and the later ones are dropped.
\<close>

theorem extractReferences_unique_first_seen:
  "distinct (map RefID (refsAt (extractReferences block file) category)) \<and>
   refsAt (extractReferences block file) category =
     spec_firstSeen (filter (\<lambda>r. refCategory (RefID r) = category)
       (candidateReferences block file))"
  by (simp add: refsAt_extractReferences distinct_spec_firstSeen)

theorem extractReferences_unique_first_seen_witness:
  "distinct (map RefID (refsAt (extractReferences repeatBlock ''main.tf'') ''resource'')) \<and>
   refsAt (extractReferences repeatBlock ''main.tf'') ''resource'' =
     [\<lparr>RefID = ''aws_instance.a'', RefPath = ''main.tf''\<rparr>,
      \<lparr>RefID = ''aws_instance.b'', RefPath = ''main.tf''\<rparr>]"
proof -
  have "spec_firstSeen (filter (\<lambda>r. refCategory (RefID r) = ''resource'')
          (candidateReferences repeatBlock ''main.tf'')) =
        [\<lparr>RefID = ''aws_instance.a'', RefPath = ''main.tf''\<rparr>,
         \<lparr>RefID = ''aws_instance.b'', RefPath = ''main.tf''\<rparr>]"
    by (simp add: candidateReferences_def blockTraversals_def repeatBlock_def refExpr_def
        traversalToReference_def refCategory_def)
  with extractReferences_unique_first_seen [of repeatBlock "''main.tf''" "''resource''"]
  show ?thesis by simp
qed

text \<open>
  C5, as the code has it. The identifiers \<open>extractReferences\<close> records in a category
  are the dotted paths of the block's traversals, whole: those that hold a dot (two
  segments or more) and whose first segment selects the category. No path is cut to
  two segments, and a path with no dot is recorded in no category.
\<close>

theorem extractReferences_full_path:
  "RefID ` set (refsAt (extractReferences block file) category) =
     {ref \<in> traversalToReference ` set (blockTraversals block).
        CHR ''.'' \<in> set ref \<and> refCategory ref = category}"
  by (rule RefID_extractReferences)

theorem extractReferences_full_path_witness:
  "RefID ` set (refsAt (extractReferences eipBlock ''main.tf'') ''resource'') =
     {''aws_instance.foo.id''}"
proof -
  have "{ref \<in> traversalToReference ` set (blockTraversals eipBlock).
          CHR ''.'' \<in> set ref \<and> refCategory ref = ''resource''} = {''aws_instance.foo.id''}"
    by (auto simp: blockTraversals_def eipBlock_def refExpr_def traversalToReference_def
        refCategory_def)
  with extractReferences_full_path [of eipBlock "''main.tf''" "''resource''"]
  show ?thesis by simp
qed

text \<open>
  The claim as the specification states it fails on
  \<open>resource "aws_eip" "ip" { instance = aws_instance.foo.id }\<close>: the identifier
  recorded is \<open>aws_instance.foo.id\<close>, not its first two segments.
\<close>

theorem extractReferences_truncation_counterexample:
  "spec_truncate2 ''aws_instance.foo.id'' = ''aws_instance.foo'' \<and>
   map RefID (refsAt (extractReferences eipBlock ''main.tf'') ''resource'') =
     [''aws_instance.foo.id'']"
  by (simp add: spec_truncate2_def eipBlock_def refExpr_def extractor_defs)

section \<open>The traversal: what every part of it preserves\<close>

lemmas traverse_induct =
  traverseNode_traverseReferences_traverseModuleDirectory_traverseModuleFiles_processModuleBlocks_processModuleReferences_processModuleRefList.induct

declare traverseNode.simps [simp del] traverseModuleDirectory.simps [simp del]
  processModuleReferences.simps [simp del]

lemma nodes_markProcessed [simp]: "nodes (markProcessed k st) = nodes st"
  and processedNodes_markProcessed [simp]:
    "processedNodes (markProcessed k st) = (processedNodes st)(k := True)"
  and rangeCount_markProcessed [simp]: "rangeCount (markProcessed k st) = rangeCount st"
  by (simp_all add: markProcessed_def)

lemma nodes_storeNode [simp]:
    "nodes (storeNode k n d st) = (nodes st)(k \<mapsto> n\<lparr>Depth := d\<rparr>)"
  and processedNodes_storeNode [simp]: "processedNodes (storeNode k n d st) = processedNodes st"
  and rangeCount_storeNode [simp]: "rangeCount (storeNode k n d st) = rangeCount st"
  by (simp_all add: storeNode_def)

lemma nodes_nextRange [simp]: "nodes (nextRange st) = nodes st"
  and processedNodes_nextRange [simp]: "processedNodes (nextRange st) = processedNodes st"
  and rangeCount_nextRange [simp]: "rangeCount (nextRange st) = Suc (rangeCount st)"
  by (simp_all add: nextRange_def)

lemma changes_refl: "changes ok st st"
  by (simp add: changes_def)

lemma changes_trans:
  "changes ok st st1 \<Longrightarrow> changes ok st1 st2 \<Longrightarrow> changes ok st st2"
  unfolding changes_def by metis

lemma changes_mono:
  "changes ok st st' \<Longrightarrow> (\<And>k n. ok k n \<Longrightarrow> ok' k n) \<Longrightarrow> changes ok' st st'"
  unfolding changes_def by metis

lemma changes_nextRange: "changes ok st st' \<Longrightarrow> changes ok st (nextRange st')"
  by (simp add: changes_def)

lemma changes_nextRange_left: "changes ok (nextRange st) st' \<Longrightarrow> changes ok st st'"
  by (simp add: changes_def)

lemma changes_markProcessed: "changes ok st st' \<Longrightarrow> changes ok st (markProcessed k st')"
  by (simp add: changes_def)

lemma changes_storeNode:
  "changes ok st st' \<Longrightarrow> CHR ''/'' \<in> set k \<or> \<not> processedNodes st k \<Longrightarrow> ok k (n\<lparr>Depth := d\<rparr>)
     \<Longrightarrow> changes ok st (storeNode k n d st')"
  by (auto simp: changes_def)

lemma changes_from_marked:
  "changes ok (markProcessed k st) st' \<Longrightarrow> changes ok st st'"
  unfolding changes_def by (auto split: if_splits)

lemma visitOf_self: "visitOf d k k (n\<lparr>Depth := d\<rparr>)"
  by (simp add: visitOf_def)

lemma deeper_visitOf: "deeper d k n \<Longrightarrow> visitOf d nodeID k n"
  by (simp add: visitOf_def deeper_def)

lemma visitOf_deeper: "visitOf (d + 1) nodeID k n \<Longrightarrow> deeper d k n"
  by (auto simp: visitOf_def deeper_def)

lemma traverseNode_unfold:
  "traverseNode w m basePath nodeID depth st =
     (if depth > m \<or> processedNodes st nodeID then Inr st
      else (case expandModule w m basePath nodeID depth (markProcessed nodeID st) of
              Inl p \<Rightarrow> Inl p
            | Inr st2 \<Rightarrow> traverseDeclaration w m basePath nodeID depth st2))"
  by (simp add: traverseNode.simps expandModule_def traverseDeclaration_def split: sum.splits)

lemma changes_after_visit:
  "changes (visitOf (d + 1) r) st st1 \<Longrightarrow> changes (deeper d) st1 st2 \<Longrightarrow>
     changes (deeper d) st st2"
  by (rule changes_trans [OF changes_mono [OF _ visitOf_deeper]])

lemma changes_store_fresh:
  "\<not> processedNodes st k \<Longrightarrow> changes (visitOf d k) st (storeNode k n d (markProcessed k st))"
  by (intro changes_storeNode changes_markProcessed changes_refl) (simp_all add: visitOf_self)

lemma changes_store_module:
  "changes (deeper d) st (storeNode (moduleID @ ''/'' @ currentID) n (d + 1) st)"
  by (intro changes_storeNode changes_refl) (simp_all add: deeper_def)

lemma traverse_changes:
  "\<forall>st'. traverseNode w m basePath nodeID depth st = Inr st' \<longrightarrow>
      changes (visitOf depth nodeID) st st'"
  "\<forall>st'. traverseReferences w m basePath refs depth st = Inr st' \<longrightarrow>
      changes (deeper depth) st st'"
  "\<forall>st'. traverseModuleDirectory w m moduleBasePath moduleID depth st = Inr st' \<longrightarrow>
      changes (deeper depth) st st'"
  "\<forall>st'. traverseModuleFiles w m files moduleBasePath moduleID depth st = Inr st' \<longrightarrow>
      changes (deeper depth) st st'"
  "\<forall>st'. processModuleBlocks w m blocks file moduleID depth moduleBasePath st = Inr st' \<longrightarrow>
      changes (deeper depth) st st'"
  "\<forall>st'. processModuleReferences w m refmap moduleID depth moduleBasePath st = Inr st' \<longrightarrow>
      changes (deeper depth) st st'"
  "\<forall>st'. processModuleRefList w m refs moduleID depth moduleBasePath st = Inr st' \<longrightarrow>
      changes (deeper depth) st st'"
proof (induct w m basePath nodeID depth st
    and w m basePath refs depth st
    and w m moduleBasePath moduleID depth st
    and w m files moduleBasePath moduleID depth st
    and w m blocks "file" moduleID depth moduleBasePath st
    and w m refmap moduleID depth moduleBasePath st
    and w m refs moduleID depth moduleBasePath st
    rule: traverse_induct)
  case (1 w m basePath nodeID depth st)
  show ?case
  proof (intro allI impI)
    fix st'
    assume run: "traverseNode w m basePath nodeID depth st = Inr st'"
    show "changes (visitOf depth nodeID) st st'"
    proof (cases "depth > m \<or> processedNodes st nodeID")
      case True
      with run show ?thesis by (simp add: traverseNode.simps changes_refl)
    next
      case guard: False
      then have fresh: "\<not> processedNodes st nodeID" by simp
      from run guard obtain st2 where
        m2: "expandModule w m basePath nodeID depth (markProcessed nodeID st) = Inr st2" and
        d2: "traverseDeclaration w m basePath nodeID depth st2 = Inr st'"
        by (auto simp: traverseNode_unfold split: sum.splits)
      have c2: "changes (visitOf depth nodeID) st st2"
      proof (cases "strings_HasPrefix nodeID ''module.''")
        case False
        with m2 show ?thesis
          by (auto simp: expandModule_def intro: changes_markProcessed changes_refl)
      next
        case True
        with m2 obtain name path mn where
          mo: "moduleNameOf nodeID = Inr name" and
          fm: "findModuleNode w basePath (moduleIDOf name) = Inr (path, mn)" and
          rest: "if path \<noteq> [] then
                   traverseModuleDirectory w m (resolvePath w basePath path) (moduleIDOf name)
                     depth (storeNode nodeID mn depth (markProcessed nodeID st)) = Inr st2
                 else st2 = markProcessed nodeID st"
          by (auto simp: expandModule_def split: sum.splits if_splits)
        show ?thesis
        proof (cases "path = []")
          case True
          with rest show ?thesis by (simp add: changes_markProcessed changes_refl)
        next
          case False
          with rest "1"(1) [OF guard True mo fm refl False]
          have "changes (deeper depth) (storeNode nodeID mn depth (markProcessed nodeID st)) st2"
            by simp
          then have "changes (visitOf depth nodeID)
              (storeNode nodeID mn depth (markProcessed nodeID st)) st2"
            by (rule changes_mono) (rule deeper_visitOf)
          with changes_store_fresh [OF fresh] show ?thesis by (rule changes_trans)
        qed
      qed
      show ?thesis
      proof (cases "findResourceNode w basePath nodeID")
        case (Inl p)
        with d2 show ?thesis by (simp add: traverseDeclaration_def)
      next
        case (Inr found)
        show ?thesis
        proof (cases found)
          case None
          with d2 Inr c2 show ?thesis by (simp add: traverseDeclaration_def)
        next
          case (Some node)
          have m2': "(if strings_HasPrefix nodeID ''module.''
               then case moduleNameOf nodeID of Inl x \<Rightarrow> Inl x
                    | Inr moduleName \<Rightarrow>
                        case findModuleNode w basePath (moduleIDOf moduleName) of
                          Inl x \<Rightarrow> Inl x
                        | Inr (modulePath, moduleNode) \<Rightarrow>
                            if modulePath \<noteq> []
                            then traverseModuleDirectory w m (resolvePath w basePath modulePath)
                                   (moduleIDOf moduleName) depth
                                   (storeNode nodeID moduleNode depth (markProcessed nodeID st))
                            else Inr (markProcessed nodeID st)
               else Inr (markProcessed nodeID st)) = Inr st2"
            using m2 by (simp add: expandModule_def)
          from d2 Inr Some have run2:
            "traverseReferences w m basePath
               (rangeReferences (rangeOrder w (rangeCount st2)) (References node)) depth
               (nextRange (storeNode nodeID node depth st2)) = Inr st'"
            by (simp add: traverseDeclaration_def)
          with "1"(2) [OF guard m2' Inr Some]
          have "changes (deeper depth) (nextRange (storeNode nodeID node depth st2)) st'"
            by simp
          then have c3: "changes (visitOf depth nodeID)
              (nextRange (storeNode nodeID node depth st2)) st'"
            by (rule changes_mono) (rule deeper_visitOf)
          have "changes (visitOf depth nodeID) st (nextRange (storeNode nodeID node depth st2))"
            using c2 fresh by (intro changes_nextRange changes_storeNode) (simp_all add: visitOf_self)
          then show ?thesis using c3 by (rule changes_trans)
        qed
      qed
    qed
  qed
next
  case (2 w m basePath depth st)
  then show ?case by (simp add: changes_refl)
next
  case (3 w m basePath cr rest depth st)
  then show ?case
    by (auto split: sum.splits if_splits
        intro: changes_after_visit)
next
  case (4 w m moduleBasePath moduleID depth st)
  then show ?case
    by (auto simp: traverseModuleDirectory.simps changes_refl split: if_splits)
next
  case (5 w m moduleBasePath moduleID depth st)
  then show ?case by (simp add: changes_refl)
next
  case (6 w m "file" files moduleBasePath moduleID depth st)
  then show ?case
    by (auto split: sum.splits option.splits intro: changes_trans)
next
  case (7 w m "file" moduleID depth moduleBasePath st)
  then show ?case by (simp add: changes_refl)
next
  case (8 w m block blocks "file" moduleID depth moduleBasePath st)
  show ?case
  proof (intro allI impI)
    fix st'
    assume run: "processModuleBlocks w m (block # blocks) file moduleID depth moduleBasePath st
      = Inr st'"
    then obtain cid where gid: "getBlockID block = Inr cid"
      by (auto split: sum.splits)
    show "changes (deeper depth) st st'"
    proof (cases "cid = []")
      case True
      with run gid "8"(1) [OF gid True] show ?thesis by simp
    next
      case False
      let ?s = "storeNode (moduleID @ ''/'' @ cid)
        (moduleResourceNode moduleID cid block (last (Labels block)) file) (depth + 1) st"
      from run gid False have ll: "lastLabel block = Inr (last (Labels block))"
        by (auto simp: lastLabel_def split: sum.splits if_splits)
      from run gid False ll obtain st1 where
        r1: "processModuleReferences w m (extractReferences block file) moduleID depth
               moduleBasePath ?s = Inr st1" and
        r2: "processModuleBlocks w m blocks file moduleID depth moduleBasePath st1 = Inr st'"
        by (auto split: sum.splits)
      from "8"(2) [OF gid False ll] r1 have c1: "changes (deeper depth) ?s st1" by simp
      from "8"(3) [OF gid False ll r1] r2 have c2: "changes (deeper depth) st1 st'" by simp
      from changes_store_module c1 have "changes (deeper depth) st st1" by (rule changes_trans)
      then show ?thesis using c2 by (rule changes_trans)
    qed
  qed
next
  case (9 w m refs moduleID depth moduleBasePath st)
  then show ?case
    by (auto simp: processModuleReferences.simps intro: changes_nextRange_left)
next
  case (10 w m moduleID depth moduleBasePath st)
  then show ?case by (simp add: changes_refl)
next
  case (11 w m cr rest moduleID depth moduleBasePath st)
  then show ?case
    by (auto split: sum.splits if_splits
        intro: changes_after_visit)
qed

section \<open>Visits, first and later\<close>

lemmas world_defs =
  exampleWorld_def hclContent_def refExpr_def literalExpr_def
  locatorSchema_def moduleCallSchema_def moduleDirSchema_def

lemmas run_defs =
  buildDependencyGraph_def newGraph_def initialState_def
  traverseNode.simps traverseModuleDirectory.simps processModuleReferences.simps
  findResourceNode_def findModuleNode_def findTerraformFiles_def resolvePath_def
  strings_HasSuffix_def strings_HasPrefix_def strings_TrimPrefix_def suffix_to_prefix
  getBlockID_def lastLabel_def moduleNameOf_def index_def AsString_def
  rangeReferences_def isTerminalRef_def moduleResourceNode_def emptyNode_def moduleIDOf_def
  markProcessed_def storeNode_def nextRange_def

lemma changes_processed: "changes ok st st' \<Longrightarrow> processedNodes st k \<Longrightarrow> processedNodes st' k"
  by (simp add: changes_def)

lemma changes_kept:
  "changes ok st st' \<Longrightarrow> processedNodes st k \<Longrightarrow> CHR ''/'' \<notin> set k \<Longrightarrow> nodes st' k = nodes st k"
  unfolding changes_def by blast

lemma changes_written:
  "changes ok st st' \<Longrightarrow> nodes st' k \<noteq> nodes st k \<Longrightarrow> \<exists>n. nodes st' k = Some n \<and> ok k n"
  unfolding changes_def by blast

lemma traverseNode_beyond: "m < d \<Longrightarrow> traverseNode w m bp nodeID d st = Inr st"
  by (simp add: traverseNode.simps)

lemma traverseNode_revisit:
  "processedNodes st nodeID \<Longrightarrow> traverseNode w m bp nodeID d st = Inr st"
  by (simp add: traverseNode.simps)

lemma traverseReferences_at_bound:
  "m \<le> d \<Longrightarrow> traverseReferences w m bp refs d st = Inr st"
  by (induction refs) (simp_all add: traverseNode_beyond)

lemma expandModule_not_module:
  "\<not> strings_HasPrefix nodeID ''module.'' \<Longrightarrow> expandModule w m bp nodeID d st = Inr st"
  by (simp add: expandModule_def)

lemma traverseNode_changes:
  "traverseNode w m bp nodeID d st = Inr st' \<Longrightarrow> changes (visitOf d nodeID) st st'"
  using traverse_changes(1) by blast

lemma traverseReferences_changes:
  "traverseReferences w m bp refs d st = Inr st' \<Longrightarrow> changes (deeper d) st st'"
  using traverse_changes(2) by blast

lemma traverseModuleDirectory_changes:
  "traverseModuleDirectory w m mbp moduleID d st = Inr st' \<Longrightarrow> changes (deeper d) st st'"
  using traverse_changes(3) by blast

lemma expandModule_cases:
  assumes "expandModule w m bp nodeID d st = Inr st2"
  obtains (skip) "st2 = st"
  | (expand) name path mn where
      "strings_HasPrefix nodeID ''module.''" "moduleNameOf nodeID = Inr name"
      "findModuleNode w bp (moduleIDOf name) = Inr (path, mn)" "path \<noteq> []"
      "traverseModuleDirectory w m (resolvePath w bp path) (moduleIDOf name) d
         (storeNode nodeID mn d st) = Inr st2"
  using assms by (auto simp: expandModule_def split: sum.splits if_splits)

lemma traverseDeclaration_cases:
  assumes "traverseDeclaration w m bp nodeID d st2 = Inr st'"
  obtains (missing) "findResourceNode w bp nodeID = Inr None" "st' = st2"
  | (found) node where
      "findResourceNode w bp nodeID = Inr (Some node)"
      "traverseReferences w m bp
         (rangeReferences (rangeOrder w (rangeCount st2)) (References node)) d
         (nextRange (storeNode nodeID node d st2)) = Inr st'"
  using assms by (auto simp: traverseDeclaration_def split: sum.splits option.splits)

lemma traverseNode_cases:
  assumes "traverseNode w m bp nodeID d st = Inr st'"
  obtains (skip) "m < d \<or> processedNodes st nodeID" "st' = st"
  | (visit) st2 where
      "d \<le> m" "\<not> processedNodes st nodeID"
      "expandModule w m bp nodeID d (markProcessed nodeID st) = Inr st2"
      "traverseDeclaration w m bp nodeID d st2 = Inr st'"
  using assms by (auto simp: traverseNode_unfold split: sum.splits if_splits)

text \<open>The module step keeps the visited set and what is stored under a visited plain key,
  apart from the Node it stores under \<open>nodeID\<close> itself.\<close>

lemma expandModule_effect:
  assumes "expandModule w m bp nodeID d st = Inr st2"
  shows "(\<forall>k. processedNodes st k \<longrightarrow> processedNodes st2 k) \<and>
         (\<forall>k. k \<noteq> nodeID \<longrightarrow> processedNodes st k \<longrightarrow> CHR ''/'' \<notin> set k \<longrightarrow>
              nodes st2 k = nodes st k)"
  using assms
proof (cases rule: expandModule_cases)
  case skip
  then show ?thesis by simp
next
  case (expand name path mn)
  from expand(5) have c: "changes (deeper d) (storeNode nodeID mn d st) st2"
    by (rule traverseModuleDirectory_changes)
  show ?thesis
    using changes_processed [OF c] changes_kept [OF c] by auto
qed

lemma traverseNode_first_visit:
  assumes fresh: "\<not> processedNodes st nodeID" and bound: "d \<le> m"
    and plain: "CHR ''/'' \<notin> set nodeID"
    and found: "findResourceNode w bp nodeID = Inr (Some node)"
    and run: "traverseNode w m bp nodeID d st = Inr st'"
  shows "nodes st' nodeID = Some (node\<lparr>Depth := d\<rparr>) \<and> processedNodes st' nodeID"
  using run
proof (cases rule: traverseNode_cases)
  case skip
  with fresh bound show ?thesis by simp
next
  case (visit st2)
  from expandModule_effect [OF visit(3)] have p2: "processedNodes st2 nodeID" by simp
  let ?s3 = "nextRange (storeNode nodeID node d st2)"
  from visit(4) found have "traverseReferences w m bp
      (rangeReferences (rangeOrder w (rangeCount st2)) (References node)) d ?s3 = Inr st'"
    by (simp add: traverseDeclaration_def)
  then have c: "changes (deeper d) ?s3 st'" by (rule traverseReferences_changes)
  from p2 have p3: "processedNodes ?s3 nodeID" by simp
  from c p3 plain have "nodes st' nodeID = nodes ?s3 nodeID" by (rule changes_kept)
  moreover from c p3 have "processedNodes st' nodeID" by (rule changes_processed)
  ultimately show ?thesis by simp
qed

text \<open>
  C2, as the code has it. Take an identifier without the separator \<open>/\<close> (the keys of
  declarations inside a module have one). A visit of it when it is already in the
  visited set returns the state as it was. Its first visit within the depth bound,
  when the Locator finds its declaration, leaves the Locator's Node stored under it
  with the depth of that visit. And whatever identifier is visited later, the Node
  stored under a visited identifier stays what it was: its depth is the depth of its
  first visit.
\<close>

theorem traverseNode_first_visit_kept:
  assumes "CHR ''/'' \<notin> set nodeID"
  shows "(processedNodes st nodeID \<longrightarrow> traverseNode w m bp nodeID d st = Inr st) \<and>
         (\<not> processedNodes st nodeID \<and> d \<le> m \<and>
            findResourceNode w bp nodeID = Inr (Some node) \<and>
            traverseNode w m bp nodeID d st = Inr stA \<longrightarrow>
              nodes stA nodeID = Some (node\<lparr>Depth := d\<rparr>) \<and> processedNodes stA nodeID) \<and>
         (processedNodes stB nodeID \<and> traverseNode w m' bp' nodeID' d' stB = Inr stC \<longrightarrow>
              nodes stC nodeID = nodes stB nodeID \<and> processedNodes stC nodeID)"
proof (intro conjI impI)
  assume "processedNodes st nodeID"
  then show "traverseNode w m bp nodeID d st = Inr st" by (rule traverseNode_revisit)
next
  assume a: "\<not> processedNodes st nodeID \<and> d \<le> m \<and>
            findResourceNode w bp nodeID = Inr (Some node) \<and>
            traverseNode w m bp nodeID d st = Inr stA"
  with assms traverseNode_first_visit [of st nodeID d m w bp node stA]
  show "nodes stA nodeID = Some (node\<lparr>Depth := d\<rparr>)" "processedNodes stA nodeID" by simp_all
next
  assume a: "processedNodes stB nodeID \<and> traverseNode w m' bp' nodeID' d' stB = Inr stC"
  then have "traverseNode w m' bp' nodeID' d' stB = Inr stC" by simp
  then have c: "changes (visitOf d' nodeID') stB stC" by (rule traverseNode_changes)
  from a assms show "nodes stC nodeID = nodes stB nodeID"
    by (intro changes_kept [OF c]) simp_all
  from a show "processedNodes stC nodeID" by (intro changes_processed [OF c]) simp
qed

lemmas cycle_eval = cycleWorld_def world_defs run_defs extractor_defs

theorem traverseNode_first_visit_kept_witness:
  "\<exists>stA stC. traverseNode cycleWorld 2 ''/cfg'' ''aws_instance.b'' 1 (initialState (newGraph 2)) = Inr stA
     \<and> map_option Depth (nodes stA ''aws_instance.b'') = Some 1
     \<and> traverseNode cycleWorld 2 ''/cfg'' ''aws_instance.a'' 0 stA = Inr stC
     \<and> map_option Depth (nodes stC ''aws_instance.b'') = Some 1
     \<and> traverseNode cycleWorld 2 ''/cfg'' ''aws_instance.b'' 2 stC = Inr stC"
proof -
  let ?s0 = "initialState (newGraph 2)"
  obtain stA where r1: "traverseNode cycleWorld 2 ''/cfg'' ''aws_instance.b'' 1 ?s0 = Inr stA"
    by (simp add: cycle_eval)
  obtain node where f: "findResourceNode cycleWorld ''/cfg'' ''aws_instance.b'' = Inr (Some node)"
    by (simp add: cycle_eval)
  have plain: "CHR ''/'' \<notin> set ''aws_instance.b''" by simp
  have fresh: "\<not> processedNodes ?s0 ''aws_instance.b''" by (simp add: initialState_def)
  obtain stC where r3: "traverseNode cycleWorld 2 ''/cfg'' ''aws_instance.a'' 0 stA = Inr stC"
    using r1 by (auto simp add: cycle_eval)
  note t = traverseNode_first_visit_kept [OF plain, where st = ?s0 and w = cycleWorld
      and m = 2 and bp = "''/cfg''" and d = 1 and node = node and stA = stA and stB = stA
      and m' = 2 and bp' = "''/cfg''" and nodeID' = "''aws_instance.a''" and d' = 0
      and stC = stC]
  from t r1 f fresh have a: "nodes stA ''aws_instance.b'' = Some (node\<lparr>Depth := 1\<rparr>)"
    and pa: "processedNodes stA ''aws_instance.b''" by simp_all
  from t r3 pa have c: "nodes stC ''aws_instance.b'' = nodes stA ''aws_instance.b''"
    and pc: "processedNodes stC ''aws_instance.b''" by simp_all
  from traverseNode_first_visit_kept [OF plain, where st = stC and w = cycleWorld
      and m = 2 and bp = "''/cfg''" and d = 2] pc
  have "traverseNode cycleWorld 2 ''/cfg'' ''aws_instance.b'' 2 stC = Inr stC" by simp
  with r1 r3 a c show ?thesis by simp
qed

lemmas module_eval = moduleWorld_def world_defs run_defs extractor_defs

text \<open>
  The claim as stated fails for the Node of a declaration inside a module. In
  \<open>moduleWorld\<close> the visit of \<open>module.net.id\<close> at depth 1 registers
  \<open>module.net/aws_subnet.s\<close> at depth 2; the later visit of \<open>module.net.name\<close> at depth
  2 expands the directory again and stores the Node anew, at depth 3, which is the
  depth the full run ends with.
\<close>

theorem module_declaration_depth_counterexample:
  "depthIn (traverseNode moduleWorld 3 ''/cfg'' ''module.net.id'' 1 (initialState (newGraph 3)))
     ''module.net/aws_subnet.s'' = Some 2 \<and>
   depthIn (andThen (traverseNode moduleWorld 3 ''/cfg'' ''module.net.id'' 1 (initialState (newGraph 3)))
              (traverseNode moduleWorld 3 ''/cfg'' ''module.net.name'' 2))
     ''module.net/aws_subnet.s'' = Some 3 \<and>
   depthAt (buildDependencyGraph moduleWorld (newGraph 3) ''/cfg'' ''aws_instance.r'')
     ''module.net/aws_subnet.s'' = Some 3"
  by (simp add: depthIn_def depthAt_def andThen_def module_eval)

text \<open>
  C4, as the code has it. With maximum depth 0 and a target that does not begin with
  \<open>module.\<close>, the run does what the Locator does for the target: it panics if the
  Locator does, it leaves the graph empty if the Locator finds nothing, and otherwise
  the graph holds one Node and no other, under the target: the Locator's Node with
  its References, at depth 0. No reference of the root becomes a Node.
\<close>

theorem depth_zero_plain_target:
  assumes "\<not> strings_HasPrefix target ''module.''"
  shows "buildDependencyGraph w (newGraph 0) bp target =
     (case findResourceNode w bp target of
        Inl p \<Rightarrow> Inl p
      | Inr None \<Rightarrow> Inr (newGraph 0)
      | Inr (Some node) \<Rightarrow> Inr \<lparr>Nodes = [target \<mapsto> node\<lparr>Depth := 0\<rparr>], MaxDepth = 0\<rparr>)"
  using assms
  by (simp add: buildDependencyGraph_def newGraph_def initialState_def traverseNode_unfold
      expandModule_not_module traverseDeclaration_def traverseReferences_at_bound
      split: sum.splits option.splits)

theorem depth_zero_plain_target_witness:
  "\<exists>node. findResourceNode cycleWorld ''/cfg'' ''aws_instance.a'' = Inr (Some node) \<and>
     map RefID (refsAt (References node) ''resource'') = [''aws_instance.b''] \<and>
     buildDependencyGraph cycleWorld (newGraph 0) ''/cfg'' ''aws_instance.a'' =
       Inr \<lparr>Nodes = [''aws_instance.a'' \<mapsto> node\<lparr>Depth := 0\<rparr>], MaxDepth = 0\<rparr>"
proof -
  obtain node where f: "findResourceNode cycleWorld ''/cfg'' ''aws_instance.a'' = Inr (Some node)"
    and r: "map RefID (refsAt (References node) ''resource'') = [''aws_instance.b'']"
    by (simp add: cycle_eval)
  have "\<not> strings_HasPrefix ''aws_instance.a'' ''module.''"
    by (simp add: strings_HasPrefix_def)
  from depth_zero_plain_target [OF this, of cycleWorld "''/cfg''"] f r
  show ?thesis by simp
qed

text \<open>
  The claim as stated fails for a target that is a module call: with maximum depth 0
  the run on \<open>module.net\<close> stores the root and also the resource of the module
  directory, at depth 1.
\<close>

theorem depth_zero_module_counterexample:
  "depthAt (buildDependencyGraph moduleWorld (newGraph 0) ''/cfg'' ''module.net'') ''module.net'' = Some 0 \<and>
   depthAt (buildDependencyGraph moduleWorld (newGraph 0) ''/cfg'' ''module.net'')
     ''module.net/aws_subnet.s'' = Some 1"
  by (simp add: depthAt_def module_eval)

text \<open>
  C3, as the code has it. After \<open>buildDependencyGraph\<close> on the empty graph, a Node of
  depth 0 is stored under the target and under no other key. When the maximum depth
  is not negative, the target has no \<open>/\<close> and the Locator finds it, the Node under
  the target is the Locator's, at depth 0: exactly one Node has depth 0. When the
  Locator does not find the target and the target does not begin with \<open>module.\<close>,
  the node map is empty.
\<close>

theorem depth_zero_is_target:
  assumes run: "buildDependencyGraph w (newGraph m) bp target = Inr g"
  shows "(\<forall>k n. Nodes g k = Some n \<and> Depth n = 0 \<longrightarrow> k = target) \<and>
         (0 \<le> m \<and> CHR ''/'' \<notin> set target \<and> findResourceNode w bp target = Inr (Some node) \<longrightarrow>
            Nodes g target = Some (node\<lparr>Depth := 0\<rparr>)) \<and>
         (findResourceNode w bp target = Inr None \<and> \<not> strings_HasPrefix target ''module.'' \<longrightarrow>
            Nodes g = Map.empty)"
proof -
  let ?s0 = "initialState (newGraph m)"
  from run obtain st' where
    r: "traverseNode w m bp target 0 ?s0 = Inr st'" and g: "g = (newGraph m)\<lparr>Nodes := nodes st'\<rparr>"
    by (auto simp: buildDependencyGraph_def newGraph_def split: sum.splits)
  from r have c: "changes (visitOf 0 target) ?s0 st'" by (rule traverseNode_changes)
  have s0: "nodes ?s0 = Map.empty" "\<And>k. \<not> processedNodes ?s0 k"
    by (simp_all add: initialState_def newGraph_def)
  have one: "\<forall>k n. Nodes g k = Some n \<and> Depth n = 0 \<longrightarrow> k = target"
  proof (intro allI impI)
    fix k n
    assume a: "Nodes g k = Some n \<and> Depth n = 0"
    with g s0 have "nodes st' k \<noteq> nodes ?s0 k" by simp
    from changes_written [OF c this] a g show "k = target"
      by (auto simp: visitOf_def)
  qed
  have two: "0 \<le> m \<and> CHR ''/'' \<notin> set target \<and> findResourceNode w bp target = Inr (Some node) \<longrightarrow>
            Nodes g target = Some (node\<lparr>Depth := 0\<rparr>)"
    using traverseNode_first_visit [OF s0(2) _ _ _ r, of node] g by simp
  have three: "findResourceNode w bp target = Inr None \<and> \<not> strings_HasPrefix target ''module.'' \<longrightarrow>
            Nodes g = Map.empty"
    using r g s0
    by (auto simp: traverseNode_unfold expandModule_not_module traverseDeclaration_def
        split: if_splits)
  from one two three show ?thesis by blast
qed

theorem depth_zero_is_target_witness:
  "\<exists>g g'. buildDependencyGraph cycleWorld (newGraph 2) ''/cfg'' ''aws_instance.a'' = Inr g \<and>
        map_option Depth (Nodes g ''aws_instance.a'') = Some 0 \<and>
        map_option Depth (Nodes g ''aws_instance.b'') = Some 1 \<and>
        buildDependencyGraph cycleWorld (newGraph 2) ''/cfg'' ''aws_instance.c'' = Inr g' \<and>
        Nodes g' = Map.empty"
proof -
  obtain g where r: "buildDependencyGraph cycleWorld (newGraph 2) ''/cfg'' ''aws_instance.a'' = Inr g"
    and b: "map_option Depth (Nodes g ''aws_instance.b'') = Some 1"
    by (simp add: cycle_eval)
  obtain node where f: "findResourceNode cycleWorld ''/cfg'' ''aws_instance.a'' = Inr (Some node)"
    by (simp add: cycle_eval)
  from depth_zero_is_target [OF r, of node] f
  have a: "Nodes g ''aws_instance.a'' = Some (node\<lparr>Depth := 0\<rparr>)" by simp
  obtain g' where r': "buildDependencyGraph cycleWorld (newGraph 2) ''/cfg'' ''aws_instance.c'' = Inr g'"
    by (simp add: cycle_eval)
  have nf: "findResourceNode cycleWorld ''/cfg'' ''aws_instance.c'' = Inr None"
    by (simp add: cycle_eval)
  have np: "\<not> strings_HasPrefix ''aws_instance.c'' ''module.''"
    by (simp add: strings_HasPrefix_def)
  from depth_zero_is_target [OF r', THEN conjunct2, THEN conjunct2] nf np
  have e: "Nodes g' = Map.empty" by blast
  from r b a r' e show ?thesis by (intro exI [of _ g] exI [of _ g']) simp
qed

text \<open>
  The claim as stated fails for the target \<open>module.net.id\<close>: the Locator finds no
  declaration of that identifier, and yet the graph holds the module-call Node that
  the Module Resolver returned, stored under the target at depth 0.
\<close>

theorem unlocated_module_target_counterexample:
  "findResourceNode moduleWorld ''/cfg'' ''module.net.id'' = Inr None \<and>
   depthAt (buildDependencyGraph moduleWorld (newGraph 3) ''/cfg'' ''module.net.id'')
     ''module.net.id'' = Some 0"
  by (simp add: depthAt_def module_eval)

section \<open>The Diagram Serializer, and references to local values\<close>

lemma rangeNodes_Nil [simp]: "rangeNodes [] g = []"
  by (simp add: rangeNodes_def map_filter_simps)

lemma rangeNodes_Cons:
  "rangeNodes (k # ks) g =
     (case Nodes g k of None \<Rightarrow> rangeNodes ks g | Some n \<Rightarrow> (k, n) # rangeNodes ks g)"
  by (simp add: rangeNodes_def map_filter_simps split: option.splits)

lemma concat_rangeNodes_roots:
  assumes "\<And>k n. Depth n \<noteq> 0 \<Longrightarrow> f (k, n) = []"
  shows "concat (map f (rangeNodes keys (g\<lparr>Nodes := rootNodes g\<rparr>))) =
         concat (map f (rangeNodes keys g))"
  by (induction keys) (auto simp: rangeNodes_Cons rootNodes_def assms split: option.splits)

text \<open>
  C8. Whatever the order of its loops, the serializer writes for a graph the text it
  writes for the graph with every Node of depth other than 0 removed: node lines and
  edge lines come from the Nodes of depth 0 and their References only, and a Node
  stored with depth greater than 0 adds no line.
\<close>

theorem generateDOT_roots_only:
  "generateDOT ord graph = generateDOT ord (graph\<lparr>Nodes := rootNodes graph\<rparr>)"
  by (simp add: generateDOT_def writeNodes_def writeDependencies_def concat_rangeNodes_roots
      writeMainNode_def writeReferenced_def writeEdges_def)

lemma in_rangeNodes:
  "Nodes g k = Some n \<Longrightarrow> k \<in> set keys \<Longrightarrow> (k, n) \<in> set (rangeNodes keys g)"
  by (induction keys) (auto simp: rangeNodes_Cons split: option.splits)

lemma in_rangeReferences:
  "c \<in> set cats \<Longrightarrow> r \<in> set (refsAt refs c) \<Longrightarrow> (c, r) \<in> set (rangeReferences cats refs)"
  by (auto simp: rangeReferences_def)

lemma sublist_concat_map: "x \<in> set xs \<Longrightarrow> sublist (f x) (concat (map f xs))"
  by (induction xs) (auto simp: sublist_append)

lemma sublist_trans: "sublist xs ys \<Longrightarrow> sublist ys zs \<Longrightarrow> sublist xs zs"
  by (rule sublist_order.order.trans)

lemma sublist_appendI1: "sublist xs ys \<Longrightarrow> sublist xs (ys @ zs)"
  by (simp add: sublist_append)

lemma sublist_appendI2: "sublist xs zs \<Longrightarrow> sublist xs (ys @ zs)"
  by (simp add: sublist_append)

lemma sublist_in_append: "ys = ps @ xs @ ss \<Longrightarrow> sublist xs ys"
  by (auto simp: sublist_def)

lemma sublist_writeNodes_generateDOT: "sublist (writeNodes ord g) (generateDOT ord g)"
  unfolding generateDOT_def
  by (rule sublist_in_append
      [where ss = "writeDependencies ord g @ ''}'' @ [nl]"]) simp

lemma sublist_writeDependencies_generateDOT:
  "sublist (writeDependencies ord g) (generateDOT ord g)"
  unfolding generateDOT_def
  by (rule sublist_in_append [where ss = "''}'' @ [nl]"]) simp

lemma sublist_writeNodes:
  assumes "Nodes g k = Some n" "Depth n = 0" "k \<in> set (refOrder ord)"
    "c \<in> set (refCategories ord k)" "r \<in> set (refsAt (References n) c)"
  shows "sublist (refNodeLine r (colorOf c)) (generateDOT ord g)"
proof -
  have "sublist (refNodeLine r (colorOf c)) (writeReferenced ord (k, n))"
    using assms(2) in_rangeReferences [OF assms(4,5)]
      sublist_concat_map [of "(c, r)" _ "\<lambda>cr. refNodeLine (snd cr) (colorOf (fst cr))"]
    by (simp add: writeReferenced_def)
  also have "sublist (writeReferenced ord (k, n))
      (concat (map (writeReferenced ord) (rangeNodes (refOrder ord) g)))"
    by (rule sublist_concat_map) (rule in_rangeNodes [OF assms(1,3)])
  also have "sublist \<dots> (writeNodes ord g)"
    unfolding writeNodes_def
    by (rule sublist_in_append [where ss = "[]" and
          ps = "concat (map writeMainNode (rangeNodes (mainOrder ord) g)) @ [nl] @
                ''  // Referenced nodes'' @ [nl]"]) simp
  also have "sublist \<dots> (generateDOT ord g)"
    by (rule sublist_writeNodes_generateDOT)
  finally show ?thesis .
qed

lemma sublist_writeDependencies:
  assumes "Nodes g k = Some n" "Depth n = 0" "k \<in> set (depOrder ord)"
    "c \<in> set (depCategories ord k)" "r \<in> set (refsAt (References n) c)"
  shows "sublist (edgeLine r (ID n)) (generateDOT ord g)"
proof -
  have "sublist (edgeLine r (ID n)) (writeEdges ord (k, n))"
    using assms(2) in_rangeReferences [OF assms(4,5)]
      sublist_concat_map [of "(c, r)" _ "\<lambda>cr. edgeLine (snd cr) (ID n)"]
    by (simp add: writeEdges_def)
  also have "sublist (writeEdges ord (k, n))
      (concat (map (writeEdges ord) (rangeNodes (depOrder ord) g)))"
    by (rule sublist_concat_map) (rule in_rangeNodes [OF assms(1,3)])
  also have "sublist \<dots> (writeDependencies ord g)"
    unfolding writeDependencies_def
    by (rule sublist_in_append [where ss = "[]" and
          ps = "[nl] @ ''  // Dependencies'' @ [nl]"]) simp
  also have "sublist \<dots> (generateDOT ord g)"
    by (rule sublist_writeDependencies_generateDOT)
  finally show ?thesis .
qed

theorem generateDOT_roots_only_witness:
  "generateDOT webOrder webGraph =
     generateDOT webOrder \<lparr>Nodes = [''aws_instance.web'' \<mapsto> webNode], MaxDepth = 3\<rparr>"
proof -
  have "rootNodes webGraph = [''aws_instance.web'' \<mapsto> webNode]"
    by (auto simp: rootNodes_def webGraph_def webNode_def)
  with generateDOT_roots_only [of webOrder webGraph] show ?thesis
    by (simp add: webGraph_def)
qed

lemma local_prefix_category:
  "strings_HasPrefix ref ''local.'' \<Longrightarrow> CHR ''.'' \<in> set ref \<and> refCategory ref = ''resource''"
  by (auto simp: strings_HasPrefix_def prefix_def refCategory_def)

lemma colorOf_resource: "colorOf ''resource'' = ''#DDA0DD''"
  by (simp add: colorOf_def colors_def)

lemma findNodeInBlocks_ID:
  "findNodeInBlocks blocks nodeID fname = Inr (Some n) \<Longrightarrow> ID n = nodeID"
  by (induction blocks) (auto split: sum.splits if_splits)

lemma findResourceInFiles_ID:
  "findResourceInFiles w files nodeID = Inr (Some n) \<Longrightarrow> ID n = nodeID"
  by (induction files) (auto dest: findNodeInBlocks_ID split: sum.splits option.splits)

lemma findResourceNode_ID: "findResourceNode w bp nodeID = Inr (Some n) \<Longrightarrow> ID n = nodeID"
  unfolding findResourceNode_def by (rule findResourceInFiles_ID)

lemma sublist_mainNodeLine:
  assumes "Nodes g k = Some n" "Depth n = 0" "k \<in> set (mainOrder ord)"
  shows "sublist (mainNodeLine k n) (generateDOT ord g)"
proof -
  have "sublist (mainNodeLine k n) (writeMainNode (k, n))"
    using assms(2) by (simp add: writeMainNode_def)
  also have "sublist (writeMainNode (k, n))
      (concat (map writeMainNode (rangeNodes (mainOrder ord) g)))"
    by (rule sublist_concat_map) (rule in_rangeNodes [OF assms(1,3)])
  also have "sublist \<dots> (writeNodes ord g)"
    unfolding writeNodes_def
    by (rule sublist_in_append [where ps = "[]" and
          ss = "[nl] @ ''  // Referenced nodes'' @ [nl] @
                concat (map (writeReferenced ord) (rangeNodes (refOrder ord) g))"]) simp
  also have "sublist \<dots> (generateDOT ord g)"
    by (rule sublist_writeNodes_generateDOT)
  finally show ?thesis .
qed

text \<open>
  C10, as the code has it. Let the dotted path \<open>ref\<close> begin with the segment
  \<open>local\<close>. The extractor records it in the category \<open>resource\<close> and in no other.
  Both loops of the traverser over references pass it by without a recursive visit.
  And when a Node of depth 0 that is stored under its own identifier (as a Node that
  the Locator returns for a key is, last part) has it among its \<open>resource\<close>
  references, the text of the serializer holds the root line of the Node, the node
  line of the reference, filled with the colour \<open>#DDA0DD\<close> of that category, and a
  solid edge from the reference to the root (the loops being ones that visit the
  Node and the category, as every range loop over the maps does).
\<close>

theorem local_reference_handling:
  assumes loc: "strings_HasPrefix ref ''local.''"
  shows "(ref \<in> traversalToReference ` set (blockTraversals block) \<longrightarrow>
            ref \<in> RefID ` set (refsAt (extractReferences block fname) ''resource'') \<and>
            (\<forall>c. c \<noteq> ''resource'' \<longrightarrow>
                 ref \<notin> RefID ` set (refsAt (extractReferences block fname) c))) \<and>
         (RefID r = ref \<longrightarrow>
            traverseReferences w m bp ((c, r) # rest) d st = traverseReferences w m bp rest d st \<and>
            processModuleRefList w m ((c, r) # rest) moduleID d mbp st =
              processModuleRefList w m rest moduleID d mbp st) \<and>
         (RefID r = ref \<and> Nodes g k = Some n \<and> Depth n = 0 \<and> ID n = k \<and>
            r \<in> set (refsAt (References n) ''resource'') \<and> k \<in> set (mainOrder ord) \<and>
            k \<in> set (refOrder ord) \<and> ''resource'' \<in> set (refCategories ord k) \<and>
            k \<in> set (depOrder ord) \<and> ''resource'' \<in> set (depCategories ord k) \<longrightarrow>
              sublist (''  '' @ [dq] @ k @ [dq] @ '' [label='' @ [dq] @ k @ [bs] @ ''n(''
                  @ Path n @ '')'' @ [dq] @ '', color=red];'' @ [nl]) (generateDOT ord g) \<and>
              sublist (''  '' @ [dq] @ ref @ [dq] @ '' [label='' @ [dq] @ ref @ [bs] @ ''n(''
                  @ RefPath r @ '')'' @ [dq] @ '', fillcolor='' @ [dq] @ ''#DDA0DD'' @ [dq]
                  @ '', style='' @ [dq] @ ''filled,rounded'' @ [dq] @ ''];'' @ [nl])
                (generateDOT ord g) \<and>
              sublist (''  '' @ [dq] @ ref @ [dq] @ '' -> '' @ [dq] @ k @ [dq]
                  @ '' [style=solid];'' @ [nl]) (generateDOT ord g)) \<and>
         (findResourceNode w bp k = Inr (Some n) \<longrightarrow> ID n = k)"
proof (intro conjI impI allI)
  assume "ref \<in> traversalToReference ` set (blockTraversals block)"
  with local_prefix_category [OF loc]
  show "ref \<in> RefID ` set (refsAt (extractReferences block fname) ''resource'')"
    by (simp add: RefID_extractReferences)
next
  fix c :: string
  assume "c \<noteq> ''resource''"
  with local_prefix_category [OF loc]
  show "ref \<notin> RefID ` set (refsAt (extractReferences block fname) c)"
    by (simp add: RefID_extractReferences)
next
  assume "RefID r = ref"
  with loc have "isTerminalRef (RefID r)" by (simp add: isTerminalRef_def)
  then show "traverseReferences w m bp ((c, r) # rest) d st = traverseReferences w m bp rest d st"
    and "processModuleRefList w m ((c, r) # rest) moduleID d mbp st =
              processModuleRefList w m rest moduleID d mbp st"
    by simp_all
next
  assume a: "RefID r = ref \<and> Nodes g k = Some n \<and> Depth n = 0 \<and> ID n = k \<and>
            r \<in> set (refsAt (References n) ''resource'') \<and> k \<in> set (mainOrder ord) \<and>
            k \<in> set (refOrder ord) \<and> ''resource'' \<in> set (refCategories ord k) \<and>
            k \<in> set (depOrder ord) \<and> ''resource'' \<in> set (depCategories ord k)"
  then show "sublist (''  '' @ [dq] @ k @ [dq] @ '' [label='' @ [dq] @ k @ [bs] @ ''n(''
                  @ Path n @ '')'' @ [dq] @ '', color=red];'' @ [nl]) (generateDOT ord g)"
    using sublist_mainNodeLine [of g k n ord] by (simp add: mainNodeLine_def)
  from a show "sublist (''  '' @ [dq] @ ref @ [dq] @ '' [label='' @ [dq] @ ref @ [bs] @ ''n(''
                  @ RefPath r @ '')'' @ [dq] @ '', fillcolor='' @ [dq] @ ''#DDA0DD'' @ [dq]
                  @ '', style='' @ [dq] @ ''filled,rounded'' @ [dq] @ ''];'' @ [nl])
                (generateDOT ord g)"
    using sublist_writeNodes [of g k n ord "''resource''" r]
    by (simp add: colorOf_resource refNodeLine_def)
  from a show "sublist (''  '' @ [dq] @ ref @ [dq] @ '' -> '' @ [dq] @ k @ [dq]
                  @ '' [style=solid];'' @ [nl]) (generateDOT ord g)"
    using sublist_writeDependencies [of g k n ord "''resource''" r]
    by (simp add: edgeLine_def)
next
  assume "findResourceNode w bp k = Inr (Some n)"
  then show "ID n = k" by (rule findResourceNode_ID)
qed

lemmas web_eval = webWorld_def webBlock_def world_defs run_defs extractor_defs
lemmas localModule_eval = localModuleWorld_def world_defs run_defs extractor_defs
lemmas dot_eval = generateDOT_def writeNodeStyles_def writeNodes_def writeDependencies_def
  writeMainNode_def writeReferenced_def writeEdges_def rangeNodes_def map_filter_simps
  mainNodeLine_def refNodeLine_def edgeLine_def colorOf_def colors_def rangeReferences_def
  refsAt_def everyOrder_def

theorem local_reference_handling_witness:
  "''local.tags'' \<in> RefID ` set (refsAt (extractReferences webBlock ''/cfg/main.tf'') ''resource'') \<and>
   ''local.tags'' \<notin> RefID ` set (refsAt (extractReferences webBlock ''/cfg/main.tf'') ''variable'') \<and>
   traverseReferences webWorld 3 ''/cfg'' [(''resource'', localRef)] 0 (initialState (newGraph 3)) =
     Inr (initialState (newGraph 3)) \<and>
   contentHas (mainContent webWorld webOrder 3 ''/cfg'' ''aws_instance'' ''web'')
     (''  '' @ [dq] @ ''aws_instance.web'' @ [dq] @ '' [label='' @ [dq] @ ''aws_instance.web'' @ [bs]
        @ ''n(/cfg/main.tf)'' @ [dq] @ '', color=red];'' @ [nl]) \<and>
   contentHas (mainContent webWorld webOrder 3 ''/cfg'' ''aws_instance'' ''web'')
     (''  '' @ [dq] @ ''local.tags'' @ [dq] @ '' [label='' @ [dq] @ ''local.tags'' @ [bs]
        @ ''n(/cfg/main.tf)'' @ [dq] @ '', fillcolor='' @ [dq] @ ''#DDA0DD'' @ [dq]
        @ '', style='' @ [dq] @ ''filled,rounded'' @ [dq] @ ''];'' @ [nl]) \<and>
   contentHas (mainContent webWorld webOrder 3 ''/cfg'' ''aws_instance'' ''web'')
     (''  '' @ [dq] @ ''local.tags'' @ [dq] @ '' -> '' @ [dq] @ ''aws_instance.web'' @ [dq]
        @ '' [style=solid];'' @ [nl]) \<and>
   mainContent webWorld webOrder 3 ''/cfg'' ''aws_instance'' ''web'' =
     Inr (''digraph terraform {'' @ [nl] @ ''  rankdir = LR;'' @ [nl] @ ''  compound = true;''
       @ [nl, nl] @ ''  // Node styles'' @ [nl] @ ''  node [shape=box, style=rounded];'' @ [nl, nl]
       @ ''  '' @ [dq] @ ''aws_instance.web'' @ [dq] @ '' [label='' @ [dq] @ ''aws_instance.web''
       @ [bs] @ ''n(/cfg/main.tf)'' @ [dq] @ '', color=red];'' @ [nl]
       @ [nl] @ ''  // Referenced nodes'' @ [nl]
       @ ''  '' @ [dq] @ ''var.ami'' @ [dq] @ '' [label='' @ [dq] @ ''var.ami'' @ [bs]
       @ ''n(/cfg/main.tf)'' @ [dq] @ '', fillcolor='' @ [dq] @ ''#FFB6C1'' @ [dq]
       @ '', style='' @ [dq] @ ''filled,rounded'' @ [dq] @ ''];'' @ [nl]
       @ ''  '' @ [dq] @ ''local.tags'' @ [dq] @ '' [label='' @ [dq] @ ''local.tags'' @ [bs]
       @ ''n(/cfg/main.tf)'' @ [dq] @ '', fillcolor='' @ [dq] @ ''#DDA0DD'' @ [dq]
       @ '', style='' @ [dq] @ ''filled,rounded'' @ [dq] @ ''];'' @ [nl]
       @ [nl] @ ''  // Dependencies'' @ [nl]
       @ ''  '' @ [dq] @ ''local.tags'' @ [dq] @ '' -> '' @ [dq] @ ''aws_instance.web'' @ [dq]
       @ '' [style=solid];'' @ [nl]
       @ ''  '' @ [dq] @ ''var.ami'' @ [dq] @ '' -> '' @ [dq] @ ''aws_instance.web'' @ [dq]
       @ '' [style=solid];'' @ [nl]
       @ ''}'' @ [nl])"
proof -
  let ?s0 = "initialState (newGraph 3)"
  have loc: "strings_HasPrefix ''local.tags'' ''local.''"
    by (simp add: strings_HasPrefix_def)
  obtain g where
    build: "buildDependencyGraph webWorld (newGraph 3) ''/cfg'' ''aws_instance.web'' = Inr g"
    and node: "Nodes g ''aws_instance.web'' = Some webNode"
    by (simp add: web_eval webNode_def)
  note t = local_reference_handling [OF loc, where block = webBlock and fname = "''/cfg/main.tf''"
      and r = localRef and w = webWorld and m = 3 and bp = "''/cfg''" and c = "''resource''"
      and rest = "[]" and d = 0 and st = ?s0 and g = g and k = "''aws_instance.web''"
      and n = webNode and ord = webOrder]
  have b: "''local.tags'' \<in> traversalToReference ` set (blockTraversals webBlock)"
    by (simp add: blockTraversals_def webBlock_def refExpr_def traversalToReference_def)
  have h: "RefID localRef = ''local.tags'' \<and>
      Nodes g ''aws_instance.web'' = Some webNode \<and> Depth webNode = 0 \<and>
      ID webNode = ''aws_instance.web'' \<and>
      localRef \<in> set (refsAt (References webNode) ''resource'') \<and>
      ''aws_instance.web'' \<in> set (mainOrder webOrder) \<and>
      ''aws_instance.web'' \<in> set (refOrder webOrder) \<and>
      ''resource'' \<in> set (refCategories webOrder ''aws_instance.web'') \<and>
      ''aws_instance.web'' \<in> set (depOrder webOrder) \<and>
      ''resource'' \<in> set (depCategories webOrder ''aws_instance.web'')"
    using node by (simp add: localRef_def webNode_def webOrder_def refsAt_def)
  have p: "Path webNode = ''/cfg/main.tf''" "RefPath localRef = ''/cfg/main.tf''"
    by (simp_all add: webNode_def localRef_def)
  have mc: "mainContent webWorld webOrder 3 ''/cfg'' ''aws_instance'' ''web'' =
      Inr (generateDOT webOrder g)"
    using build by (simp add: mainContent_def)
  from t b have one: "''local.tags'' \<in> RefID ` set (refsAt (extractReferences webBlock ''/cfg/main.tf'') ''resource'')"
    "''local.tags'' \<notin> RefID ` set (refsAt (extractReferences webBlock ''/cfg/main.tf'') ''variable'')"
    by simp_all
  from t h have two: "traverseReferences webWorld 3 ''/cfg'' [(''resource'', localRef)] 0 ?s0 = Inr ?s0"
    by simp
  from t h p mc have three:
    "contentHas (mainContent webWorld webOrder 3 ''/cfg'' ''aws_instance'' ''web'')
     (''  '' @ [dq] @ ''aws_instance.web'' @ [dq] @ '' [label='' @ [dq] @ ''aws_instance.web'' @ [bs]
        @ ''n(/cfg/main.tf)'' @ [dq] @ '', color=red];'' @ [nl])"
    "contentHas (mainContent webWorld webOrder 3 ''/cfg'' ''aws_instance'' ''web'')
     (''  '' @ [dq] @ ''local.tags'' @ [dq] @ '' [label='' @ [dq] @ ''local.tags'' @ [bs]
        @ ''n(/cfg/main.tf)'' @ [dq] @ '', fillcolor='' @ [dq] @ ''#DDA0DD'' @ [dq]
        @ '', style='' @ [dq] @ ''filled,rounded'' @ [dq] @ ''];'' @ [nl])"
    "contentHas (mainContent webWorld webOrder 3 ''/cfg'' ''aws_instance'' ''web'')
     (''  '' @ [dq] @ ''local.tags'' @ [dq] @ '' -> '' @ [dq] @ ''aws_instance.web'' @ [dq]
        @ '' [style=solid];'' @ [nl])"
    by (simp_all add: contentHas_def)
  have four: "mainContent webWorld webOrder 3 ''/cfg'' ''aws_instance'' ''web'' =
     Inr (''digraph terraform {'' @ [nl] @ ''  rankdir = LR;'' @ [nl] @ ''  compound = true;''
       @ [nl, nl] @ ''  // Node styles'' @ [nl] @ ''  node [shape=box, style=rounded];'' @ [nl, nl]
       @ ''  '' @ [dq] @ ''aws_instance.web'' @ [dq] @ '' [label='' @ [dq] @ ''aws_instance.web''
       @ [bs] @ ''n(/cfg/main.tf)'' @ [dq] @ '', color=red];'' @ [nl]
       @ [nl] @ ''  // Referenced nodes'' @ [nl]
       @ ''  '' @ [dq] @ ''var.ami'' @ [dq] @ '' [label='' @ [dq] @ ''var.ami'' @ [bs]
       @ ''n(/cfg/main.tf)'' @ [dq] @ '', fillcolor='' @ [dq] @ ''#FFB6C1'' @ [dq]
       @ '', style='' @ [dq] @ ''filled,rounded'' @ [dq] @ ''];'' @ [nl]
       @ ''  '' @ [dq] @ ''local.tags'' @ [dq] @ '' [label='' @ [dq] @ ''local.tags'' @ [bs]
       @ ''n(/cfg/main.tf)'' @ [dq] @ '', fillcolor='' @ [dq] @ ''#DDA0DD'' @ [dq]
       @ '', style='' @ [dq] @ ''filled,rounded'' @ [dq] @ ''];'' @ [nl]
       @ [nl] @ ''  // Dependencies'' @ [nl]
       @ ''  '' @ [dq] @ ''local.tags'' @ [dq] @ '' -> '' @ [dq] @ ''aws_instance.web'' @ [dq]
       @ '' [style=solid];'' @ [nl]
       @ ''  '' @ [dq] @ ''var.ami'' @ [dq] @ '' -> '' @ [dq] @ ''aws_instance.web'' @ [dq]
       @ '' [style=solid];'' @ [nl]
       @ ''}'' @ [nl])"
    by (simp add: mainContent_def web_eval dot_eval webOrder_def)
  from one two three four show ?thesis by blast
qed

text \<open>
  The claim as stated fails when the target is a module with an attribute suffix:
  for \<open>-type module -name net.id\<close> the Node of depth 0 is the module-call Node,
  stored under \<open>module.net.id\<close> with the identifier \<open>module.net\<close>. The root line is
  written under the key and the edge goes to the identifier of the Node, so
  \<open>local.tags\<close> has its edge into \<open>module.net\<close>, and none into the root.
\<close>

theorem suffixed_root_edge_counterexample:
  "mainContent localModuleWorld (everyOrder [''module.net.id'', ''module.net/aws_subnet.s'']) 3
      ''/cfg'' ''module'' ''net.id'' =
     Inr (''digraph terraform {'' @ [nl] @ ''  rankdir = LR;'' @ [nl] @ ''  compound = true;''
       @ [nl, nl] @ ''  // Node styles'' @ [nl] @ ''  node [shape=box, style=rounded];'' @ [nl, nl]
       @ ''  '' @ [dq] @ ''module.net.id'' @ [dq] @ '' [label='' @ [dq] @ ''module.net.id'' @ [bs]
       @ ''n(/cfg/modules.tf)'' @ [dq] @ '', color=red];'' @ [nl]
       @ [nl] @ ''  // Referenced nodes'' @ [nl]
       @ ''  '' @ [dq] @ ''local.tags'' @ [dq] @ '' [label='' @ [dq] @ ''local.tags'' @ [bs]
       @ ''n(/cfg/modules.tf)'' @ [dq] @ '', fillcolor='' @ [dq] @ ''#DDA0DD'' @ [dq]
       @ '', style='' @ [dq] @ ''filled,rounded'' @ [dq] @ ''];'' @ [nl]
       @ [nl] @ ''  // Dependencies'' @ [nl]
       @ ''  '' @ [dq] @ ''local.tags'' @ [dq] @ '' -> '' @ [dq] @ ''module.net'' @ [dq]
       @ '' [style=solid];'' @ [nl]
       @ ''}'' @ [nl]) \<and>
   \<not> contentHas
       (mainContent localModuleWorld (everyOrder [''module.net.id'', ''module.net/aws_subnet.s'']) 3
          ''/cfg'' ''module'' ''net.id'')
       (''  '' @ [dq] @ ''local.tags'' @ [dq] @ '' -> '' @ [dq] @ ''module.net.id'' @ [dq]
          @ '' [style=solid];'' @ [nl])"
  by (simp add: mainContent_def contentHas_def localModule_eval dot_eval sublist_Cons_right
      dq_def nl_def bs_def)

section \<open>The Module Resolver and the module step\<close>

lemma findModuleInBlocks_unresolved:
  assumes "\<forall>b \<in> set blocks. BlockType b = ''module'' \<longrightarrow>
             Labels b \<noteq> [] \<and> (hd (Labels b) = name \<longrightarrow> nonRelativeSource b)"
  shows "findModuleInBlocks w bp moduleID name file blocks = Inr None"
  using assms
proof (induction blocks)
  case Nil
  then show ?case by simp
next
  case (Cons b blocks)
  then have rest: "findModuleInBlocks w bp moduleID name file blocks = Inr None" by simp
  show ?case
  proof (cases "BlockType b = ''module''")
    case False
    with rest show ?thesis by simp
  next
    case True
    with Cons.prems have l: "Labels b \<noteq> []" and
      s: "hd (Labels b) = name \<longrightarrow> nonRelativeSource b" by simp_all
    from l have i: "index (Labels b) 0 = Inr (hd (Labels b))"
      by (cases "Labels b") (simp_all add: index_def)
    show ?thesis
    proof (cases "hd (Labels b) = name")
      case False
      with True i rest show ?thesis by simp
    next
      case same: True
      with s have "nonRelativeSource b" by simp
      with True i same rest show ?thesis
        by (auto simp: nonRelativeSource_def AsString_def
            split: option.splits CtyValue.splits)
    qed
  qed
qed

lemma findModuleInFiles_unresolved:
  assumes "\<forall>b \<in> set (concat (map (\<lambda>file. case parseContent w file moduleCallSchema of
                           None \<Rightarrow> [] | Some blocks \<Rightarrow> blocks) files)).
             BlockType b = ''module'' \<longrightarrow>
               Labels b \<noteq> [] \<and> (hd (Labels b) = name \<longrightarrow> nonRelativeSource b)"
  shows "findModuleInFiles w bp moduleID name files = Inr None"
  using assms
proof (induction files)
  case Nil
  then show ?case by simp
next
  case (Cons f files)
  then have rest: "findModuleInFiles w bp moduleID name files = Inr None" by simp
  show ?case
  proof (cases "parseContent w f moduleCallSchema")
    case None
    with rest show ?thesis by simp
  next
    case (Some blocks)
    with Cons.prems have "\<forall>b \<in> set blocks. BlockType b = ''module'' \<longrightarrow>
             Labels b \<noteq> [] \<and> (hd (Labels b) = name \<longrightarrow> nonRelativeSource b)"
      by simp
    then have "findModuleInBlocks w bp moduleID name f blocks = Inr None"
      by (rule findModuleInBlocks_unresolved)
    with Some rest show ?thesis by simp
  qed
qed

lemma moduleName_of_moduleID:
  "CHR ''.'' \<notin> set name \<Longrightarrow>
     (let moduleName0 = strings_TrimPrefix (moduleIDOf name) ''module.'';
          parts = strings_SplitN2 moduleName0 CHR ''.''
      in if length parts > 0 then hd parts else moduleName0) = name"
  by (simp add: strings_TrimPrefix_def moduleIDOf_def strings_SplitN2_def)

lemma findModuleNode_plain:
  "CHR ''.'' \<notin> set name \<Longrightarrow>
     findModuleNode w bp (moduleIDOf name) =
       (case findModuleInFiles w bp (moduleIDOf name) name (findTerraformFiles w bp) of
          Inl p \<Rightarrow> Inl p
        | Inr (Some r) \<Rightarrow> Inr r
        | Inr None \<Rightarrow> Inr ([], emptyNode))"
  using moduleName_of_moduleID [of name]
  by (simp add: findModuleNode_def Let_def)

text \<open>
  C7, as the code has it. Let every module-call declaration with the label \<open>name\<close>,
  among the blocks the Module Resolver reads in the base directory, have a \<open>source\<close>
  that is a literal string not beginning with a dot. Then the Resolver returns the
  empty directory and the zero Node, without a panic; the module step of a visit of
  \<open>module.name\<close>, with or without an attribute suffix, leaves the state as it was, so
  that no declaration of the module is registered; and the visit goes on with the
  Locator, which may store a Node for the identifier.
\<close>

theorem nonrelative_module_unresolved:
  assumes name: "CHR ''.'' \<notin> set name"
    and calls: "\<forall>b \<in> set (moduleCallBlocks w bp). BlockType b = ''module'' \<longrightarrow>
             Labels b \<noteq> [] \<and> (hd (Labels b) = name \<longrightarrow> nonRelativeSource b)"
  shows "findModuleNode w bp (moduleIDOf name) = Inr ([], emptyNode) \<and>
         (moduleNameOf nodeID = Inr name \<longrightarrow>
            expandModule w m bp nodeID d st = Inr st \<and>
            traverseNode w m bp nodeID d st =
              (if m < d \<or> processedNodes st nodeID then Inr st
               else traverseDeclaration w m bp nodeID d (markProcessed nodeID st)))"
proof -
  from calls have "findModuleInFiles w bp (moduleIDOf name) name (findTerraformFiles w bp) = Inr None"
    unfolding moduleCallBlocks_def by (rule findModuleInFiles_unresolved)
  with name have r: "findModuleNode w bp (moduleIDOf name) = Inr ([], emptyNode)"
    by (simp add: findModuleNode_plain)
  then have e: "moduleNameOf nodeID = Inr name \<Longrightarrow> expandModule w m bp nodeID d st = Inr st"
    for st by (simp add: expandModule_def)
  from r e show ?thesis by (simp add: traverseNode_unfold)
qed

lemmas registry_eval = registryWorld_def registryCall_def world_defs run_defs extractor_defs
lemmas shadowed_eval = shadowedWorld_def registryCall_def world_defs run_defs extractor_defs

theorem nonrelative_module_unresolved_witness:
  "findModuleNode registryWorld ''/cfg'' ''module.net'' = Inr ([], emptyNode) \<and>
   expandModule registryWorld 3 ''/cfg'' ''module.net.id'' 1 (initialState (newGraph 3)) =
     Inr (initialState (newGraph 3)) \<and>
   depthAt (buildDependencyGraph registryWorld (newGraph 3) ''/cfg'' ''module.net'') ''module.net''
     = Some 0"
proof -
  have n: "CHR ''.'' \<notin> set ''net''" by simp
  have c: "\<forall>b \<in> set (moduleCallBlocks registryWorld ''/cfg''). BlockType b = ''module'' \<longrightarrow>
             Labels b \<noteq> [] \<and> (hd (Labels b) = ''net'' \<longrightarrow> nonRelativeSource b)"
    by (simp add: moduleCallBlocks_def nonRelativeSource_def registry_eval)
  have mn: "moduleNameOf ''module.net.id'' = Inr ''net''"
    by (simp add: moduleNameOf_def index_def strings_SplitN2_def)
  have d: "depthAt (buildDependencyGraph registryWorld (newGraph 3) ''/cfg'' ''module.net'')
      ''module.net'' = Some 0"
    by (simp add: depthAt_def registry_eval)
  from nonrelative_module_unresolved [OF n c, of "''module.net.id''" 3 1 "initialState (newGraph 3)"]
    mn d
  show ?thesis by (simp add: moduleIDOf_def)
qed

text \<open>
  The claim as stated, for every such declaration, fails when a second declaration
  has the same label: the Resolver does not stop at the registry call of \<open>net\<close>, it
  goes on to the call with the source \<open>./net\<close>, resolves the module and the
  traversal registers the resource of its directory.
\<close>

theorem shadowed_module_counterexample:
  "nonRelativeSource registryCall \<and>
   parseContent shadowedWorld ''/cfg/modules.tf'' moduleCallSchema = Some [registryCall] \<and>
   map_sum id fst (findModuleNode shadowedWorld ''/cfg'' ''module.net'') = Inr ''/cfg/net'' \<and>
   depthAt (buildDependencyGraph shadowedWorld (newGraph 3) ''/cfg'' ''module.net'')
     ''module.net/aws_subnet.s'' = Some 1"
  by (simp add: depthAt_def nonRelativeSource_def shadowed_eval)


lemma strings_Split_first: "c \<notin> set a \<Longrightarrow> strings_Split (a @ c # b) c = a # strings_Split b c"
  by (induction a) auto



lemma changes_dom: "changes ok st st' \<Longrightarrow> nodes st k \<noteq> None \<Longrightarrow> nodes st' k \<noteq> None"
  unfolding changes_def by (metis option.distinct(1))

lemma traverseDeclaration_dom:
  assumes "traverseDeclaration w m bp nodeID d st = Inr st'" "nodes st k \<noteq> None"
  shows "nodes st' k \<noteq> None"
  using assms(1)
proof (cases rule: traverseDeclaration_cases)
  case missing
  with assms(2) show ?thesis by simp
next
  case (found node)
  from found(2) have "changes (deeper d) (nextRange (storeNode nodeID node d st)) st'"
    by (rule traverseReferences_changes)
  then show ?thesis by (rule changes_dom) (use assms(2) in simp)
qed

lemma traverseDeclaration_processed:
  assumes "traverseDeclaration w m bp nodeID d st = Inr st'" "processedNodes st k"
  shows "processedNodes st' k"
  using assms(1)
proof (cases rule: traverseDeclaration_cases)
  case missing
  with assms(2) show ?thesis by simp
next
  case (found node)
  from found(2) have "changes (deeper d) (nextRange (storeNode nodeID node d st)) st'"
    by (rule traverseReferences_changes)
  then show ?thesis by (rule changes_processed) (use assms(2) in simp)
qed

lemma traverseNode_marks:
  assumes "traverseNode w m bp nodeID d st = Inr st'" "d \<le> m"
  shows "processedNodes st' nodeID"
  using assms(1)
proof (cases rule: traverseNode_cases)
  case skip
  with assms(2) show ?thesis by auto
next
  case (visit st2)
  from expandModule_effect [OF visit(3)] have "processedNodes st2 nodeID" by simp
  with visit(4) show ?thesis by (rule traverseDeclaration_processed)
qed

section \<open>The traversal returns in a well-formed world\<close>

lemma getBlockID_ok: "labelsFit b \<Longrightarrow> \<exists>i. getBlockID b = Inr i"
  by (auto simp: labelsFit_def getBlockID_def split: list.splits)

lemma lastLabel_ok:
  "labelsFit b \<Longrightarrow> getBlockID b = Inr i \<Longrightarrow> i \<noteq> [] \<Longrightarrow> lastLabel b = Inr (last (Labels b))"
  by (auto simp: labelsFit_def getBlockID_def lastLabel_def split: if_splits)

lemma findNodeInBlocks_ok:
  "\<forall>b \<in> set blocks. labelsFit b \<Longrightarrow> nodeID \<noteq> [] \<Longrightarrow>
     \<exists>r. findNodeInBlocks blocks nodeID file = Inr r"
proof (induction blocks)
  case Nil
  then show ?case by simp
next
  case (Cons b blocks)
  then obtain i where i: "getBlockID b = Inr i" using getBlockID_ok [of b] by auto
  show ?case
  proof (cases "i = nodeID")
    case True
    with Cons.prems i lastLabel_ok [of b i] show ?thesis by simp
  next
    case False
    with Cons i show ?thesis by simp
  qed
qed

lemma findResourceInFiles_ok:
  "wellFormedWorld w \<Longrightarrow> nodeID \<noteq> [] \<Longrightarrow> \<exists>r. findResourceInFiles w files nodeID = Inr r"
proof (induction files)
  case Nil
  then show ?case by simp
next
  case (Cons f files)
  show ?case
  proof (cases "parseContent w f locatorSchema")
    case None
    with Cons show ?thesis by simp
  next
    case (Some blocks)
    with Cons.prems have "\<forall>b \<in> set blocks. labelsFit b"
      unfolding wellFormedWorld_def by blast
    from findNodeInBlocks_ok [OF this Cons.prems(2), of f] obtain r where
      "findNodeInBlocks blocks nodeID f = Inr r" ..
    with Some Cons show ?thesis by (cases r) auto
  qed
qed

lemma findResourceNode_ok:
  "wellFormedWorld w \<Longrightarrow> nodeID \<noteq> [] \<Longrightarrow> \<exists>r. findResourceNode w bp nodeID = Inr r"
  unfolding findResourceNode_def by (rule findResourceInFiles_ok)

lemma findModuleInBlocks_ok:
  "\<forall>b \<in> set blocks. labelsFit b \<and> sourceIsString b \<Longrightarrow>
     \<exists>r. findModuleInBlocks w bp moduleID name file blocks = Inr r"
proof (induction blocks)
  case Nil
  then show ?case by simp
next
  case (Cons b blocks)
  then obtain r where rest: "findModuleInBlocks w bp moduleID name file blocks = Inr r" by auto
  from Cons.prems have lf: "labelsFit b" and ss: "sourceIsString b" by simp_all
  show ?case
  proof (cases "BlockType b = ''module''")
    case False
    with rest show ?thesis by simp
  next
    case True
    with lf have "index (Labels b) 0 = Inr (hd (Labels b))"
      by (cases "Labels b") (simp_all add: index_def labelsFit_def)
    with True ss rest show ?thesis
      by (auto simp: sourceIsString_def AsString_def Let_def
          split: option.splits CtyValue.splits)
  qed
qed

lemma findModuleInFiles_ok:
  "wellFormedWorld w \<Longrightarrow> \<exists>r. findModuleInFiles w bp moduleID name files = Inr r"
proof (induction files)
  case Nil
  then show ?case by simp
next
  case (Cons f files)
  show ?case
  proof (cases "parseContent w f moduleCallSchema")
    case None
    with Cons show ?thesis by simp
  next
    case (Some blocks)
    with Cons.prems have "\<forall>b \<in> set blocks. labelsFit b \<and> sourceIsString b"
      unfolding wellFormedWorld_def by blast
    from findModuleInBlocks_ok [OF this, of w bp moduleID name f] obtain r where
      "findModuleInBlocks w bp moduleID name f blocks = Inr r" ..
    with Some Cons show ?thesis by (cases r) auto
  qed
qed

lemma findModuleNode_ok: "wellFormedWorld w \<Longrightarrow> \<exists>r. findModuleNode w bp moduleID = Inr r"
proof -
  assume wf: "wellFormedWorld w"
  let ?n0 = "strings_TrimPrefix moduleID ''module.''"
  let ?n = "if length (strings_SplitN2 ?n0 CHR ''.'') > 0
            then hd (strings_SplitN2 ?n0 CHR ''.'') else ?n0"
  from findModuleInFiles_ok [OF wf, of bp moduleID ?n "findTerraformFiles w bp"]
  obtain r where "findModuleInFiles w bp moduleID ?n (findTerraformFiles w bp) = Inr r" ..
  then show ?thesis by (cases r) (auto simp: findModuleNode_def Let_def)
qed

lemma strings_Split_nonempty: "strings_Split s c \<noteq> []"
  by (induction s) (auto split: list.splits)

lemma moduleNameOf_ok:
  assumes "strings_HasPrefix nodeID ''module.''"
  shows "\<exists>n. moduleNameOf nodeID = Inr n"
proof -
  from assms obtain rest where eq: "nodeID = ''module'' @ CHR ''.'' # rest"
    by (auto simp: strings_HasPrefix_def prefix_def)
  have "strings_Split nodeID CHR ''.'' = ''module'' # strings_Split rest CHR ''.''"
    unfolding eq by (rule strings_Split_first) simp
  moreover obtain x xs where "strings_Split rest CHR ''.'' = x # xs"
    using strings_Split_nonempty [of rest "CHR ''.''"] by (cases "strings_Split rest CHR ''.''") auto
  ultimately show ?thesis
    by (simp add: moduleNameOf_def index_def strings_SplitN2_def)
qed

lemma findNodeInBlocks_found:
  "findNodeInBlocks blocks nodeID file = Inr (Some n) \<Longrightarrow>
     \<exists>b \<in> set blocks. getBlockID b = Inr nodeID \<and> References n = extractReferences b file"
proof (induction blocks)
  case Nil
  then show ?case by simp
next
  case (Cons b blocks)
  then show ?case by (auto split: sum.splits if_splits)
qed

lemma findResourceInFiles_found:
  "findResourceInFiles w files nodeID = Inr (Some n) \<Longrightarrow>
     \<exists>file blocks. parseContent w file locatorSchema = Some blocks \<and>
       (\<exists>b \<in> set blocks. getBlockID b = Inr nodeID \<and> References n = extractReferences b file)"
proof (induction files)
  case Nil
  then show ?case by simp
next
  case (Cons f files)
  show ?case
  proof (cases "parseContent w f locatorSchema")
    case None
    with Cons show ?thesis by simp
  next
    case (Some blocks)
    show ?thesis
    proof (cases "findNodeInBlocks blocks nodeID f")
      case (Inl p)
      with Some Cons.prems show ?thesis by simp
    next
      case (Inr r)
      show ?thesis
      proof (cases r)
        case None
        with Inr Some Cons show ?thesis by simp
      next
        case (Some n')
        with Inr \<open>parseContent w f locatorSchema = Some blocks\<close> Cons.prems
        have "findNodeInBlocks blocks nodeID f = Inr (Some n)" by simp
        from findNodeInBlocks_found [OF this]
          \<open>parseContent w f locatorSchema = Some blocks\<close>
        show ?thesis by blast
      qed
    qed
  qed
qed

lemma found_reference_nonempty:
  assumes "findResourceNode w bp nodeID = Inr (Some n)"
    and "cr \<in> set (rangeReferences order (References n))"
  shows "RefID (snd cr) \<noteq> []"
proof -
  from assms(1) obtain b fname where "References n = extractReferences b fname"
    unfolding findResourceNode_def by (blast dest: findResourceInFiles_found)
  with assms(2) have "RefID (snd cr) \<in> RefID ` set (refsAt (extractReferences b fname) (fst cr))"
    by (auto simp: rangeReferences_def)
  then show ?thesis unfolding RefID_extractReferences by auto
qed

lemma found_plain:
  assumes "plainIdentifiers w" "findResourceNode w bp nodeID = Inr (Some n)"
  shows "CHR ''/'' \<notin> set nodeID"
proof -
  from assms(2) obtain fname blocks b where
    "parseContent w fname locatorSchema = Some blocks" "b \<in> set blocks" "getBlockID b = Inr nodeID"
    unfolding findResourceNode_def by (blast dest: findResourceInFiles_found)
  with assms(1) show ?thesis unfolding plainIdentifiers_def by blast
qed

lemma traverse_returns:
  "wellFormedWorld w \<longrightarrow> nodeID \<noteq> [] \<longrightarrow>
     (\<exists>st'. traverseNode w m basePath nodeID depth st = Inr st')"
  "wellFormedWorld w \<longrightarrow> (\<forall>cr \<in> set refs. RefID (snd cr) \<noteq> []) \<longrightarrow>
     (\<exists>st'. traverseReferences w m basePath refs depth st = Inr st')"
  "wellFormedWorld w \<longrightarrow>
     (\<exists>st'. traverseModuleDirectory w m moduleBasePath moduleID depth st = Inr st')"
  "wellFormedWorld w \<longrightarrow>
     (\<exists>st'. traverseModuleFiles w m files moduleBasePath moduleID depth st = Inr st')"
  "wellFormedWorld w \<longrightarrow> (\<forall>b \<in> set blocks. labelsFit b) \<longrightarrow>
     (\<exists>st'. processModuleBlocks w m blocks file moduleID depth moduleBasePath st = Inr st')"
  "wellFormedWorld w \<longrightarrow>
     (\<exists>st'. processModuleReferences w m refmap moduleID depth moduleBasePath st = Inr st')"
  "wellFormedWorld w \<longrightarrow>
     (\<exists>st'. processModuleRefList w m refs moduleID depth moduleBasePath st = Inr st')"
proof (induct w m basePath nodeID depth st
    and w m basePath refs depth st
    and w m moduleBasePath moduleID depth st
    and w m files moduleBasePath moduleID depth st
    and w m blocks "file" moduleID depth moduleBasePath st
    and w m refmap moduleID depth moduleBasePath st
    and w m refs moduleID depth moduleBasePath st
    rule: traverse_induct)
  case (1 w m basePath nodeID depth st)
  show ?case
  proof (intro impI)
    assume wf: "wellFormedWorld w" and ne: "nodeID \<noteq> []"
    show "\<exists>st'. traverseNode w m basePath nodeID depth st = Inr st'"
    proof (cases "depth > m \<or> processedNodes st nodeID")
      case True
      then show ?thesis by (simp add: traverseNode.simps)
    next
      case guard: False
      have "\<exists>st2. expandModule w m basePath nodeID depth (markProcessed nodeID st) = Inr st2"
      proof (cases "strings_HasPrefix nodeID ''module.''")
        case False
        then show ?thesis by (simp add: expandModule_def)
      next
        case True
        from moduleNameOf_ok [OF True] obtain name where mo: "moduleNameOf nodeID = Inr name" ..
        from findModuleNode_ok [OF wf, of basePath "moduleIDOf name"] obtain path mn where
          fm: "findModuleNode w basePath (moduleIDOf name) = Inr (path, mn)" by auto
        show ?thesis
        proof (cases "path = []")
          case True
          with \<open>strings_HasPrefix nodeID ''module.''\<close> mo fm show ?thesis
            by (simp add: expandModule_def)
        next
          case False
          from "1"(1) [OF guard True mo fm refl False] wf
          obtain st2 where "traverseModuleDirectory w m (resolvePath w basePath path)
              (moduleIDOf name) depth (storeNode nodeID mn depth (markProcessed nodeID st)) = Inr st2"
            by auto
          with True mo fm False show ?thesis by (simp add: expandModule_def)
        qed
      qed
      then obtain st2 where
        m2: "expandModule w m basePath nodeID depth (markProcessed nodeID st) = Inr st2" ..
      from findResourceNode_ok [OF wf ne, of basePath] obtain found where
        f: "findResourceNode w basePath nodeID = Inr found" ..
      show ?thesis
      proof (cases found)
        case None
        with guard m2 f show ?thesis by (simp add: traverseNode_unfold traverseDeclaration_def)
      next
        case (Some node)
        have m2': "(if strings_HasPrefix nodeID ''module.''
             then case moduleNameOf nodeID of Inl x \<Rightarrow> Inl x
                  | Inr moduleName \<Rightarrow>
                      case findModuleNode w basePath (moduleIDOf moduleName) of
                        Inl x \<Rightarrow> Inl x
                      | Inr (modulePath, moduleNode) \<Rightarrow>
                          if modulePath \<noteq> []
                          then traverseModuleDirectory w m (resolvePath w basePath modulePath)
                                 (moduleIDOf moduleName) depth
                                 (storeNode nodeID moduleNode depth (markProcessed nodeID st))
                          else Inr (markProcessed nodeID st)
             else Inr (markProcessed nodeID st)) = Inr st2"
          using m2 by (simp add: expandModule_def)
        let ?refs = "rangeReferences (rangeOrder w (rangeCount st2)) (References node)"
        from f Some have f': "findResourceNode w basePath nodeID = Inr (Some node)" by simp
        have "\<forall>cr \<in> set ?refs. RefID (snd cr) \<noteq> []"
          by (intro ballI) (rule found_reference_nonempty [OF f'])
        with "1"(2) [OF guard m2' f Some] wf
        obtain st' where "traverseReferences w m basePath ?refs depth
            (nextRange (storeNode nodeID node depth st2)) = Inr st'" by auto
        with guard m2 f Some show ?thesis
          by (simp add: traverseNode_unfold traverseDeclaration_def)
      qed
    qed
  qed
next
  case (2 w m basePath depth st)
  then show ?case by simp
next
  case (3 w m basePath cr rest depth st)
  show ?case
  proof (intro impI)
    assume wf: "wellFormedWorld w" and ne: "\<forall>cr \<in> set (cr # rest). RefID (snd cr) \<noteq> []"
    show "\<exists>st'. traverseReferences w m basePath (cr # rest) depth st = Inr st'"
    proof (cases "isTerminalRef (RefID (snd cr))")
      case True
      with "3"(3) wf ne show ?thesis by simp
    next
      case False
      from "3"(1) [OF False] wf ne obtain st1 where
        r: "traverseNode w m basePath (RefID (snd cr)) (depth + 1) st = Inr st1" by auto
      from "3"(2) [OF False r] wf ne obtain st' where
        "traverseReferences w m basePath rest depth st1 = Inr st'" by auto
      with False r show ?thesis by simp
    qed
  qed
next
  case (4 w m moduleBasePath moduleID depth st)
  then show ?case by (simp add: traverseModuleDirectory.simps)
next
  case (5 w m moduleBasePath moduleID depth st)
  then show ?case by simp
next
  case (6 w m "file" files moduleBasePath moduleID depth st)
  show ?case
  proof (intro impI)
    assume wf: "wellFormedWorld w"
    show "\<exists>st'. traverseModuleFiles w m (file # files) moduleBasePath moduleID depth st = Inr st'"
    proof (cases "parseContent w file moduleDirSchema")
      case None
      with "6"(1) wf show ?thesis by simp
    next
      case (Some blocks)
      from Some wf have "\<forall>b \<in> set blocks. labelsFit b"
        unfolding wellFormedWorld_def by blast
      with "6"(2) [OF Some] wf obtain st1 where
        r: "processModuleBlocks w m blocks file moduleID depth moduleBasePath st = Inr st1" by auto
      from "6"(3) [OF Some r] wf obtain st' where
        "traverseModuleFiles w m files moduleBasePath moduleID depth st1 = Inr st'" by auto
      with Some r show ?thesis by simp
    qed
  qed
next
  case (7 w m "file" moduleID depth moduleBasePath st)
  then show ?case by simp
next
  case (8 w m block blocks "file" moduleID depth moduleBasePath st)
  show ?case
  proof (intro impI)
    assume wf: "wellFormedWorld w" and lf: "\<forall>b \<in> set (block # blocks). labelsFit b"
    then have lb: "labelsFit block" and lr: "\<forall>b \<in> set blocks. labelsFit b" by simp_all
    from getBlockID_ok [OF lb] obtain cid where gid: "getBlockID block = Inr cid" ..
    show "\<exists>st'. processModuleBlocks w m (block # blocks) file moduleID depth moduleBasePath st
      = Inr st'"
    proof (cases "cid = []")
      case True
      with "8"(1) [OF gid True] wf lr gid show ?thesis by simp
    next
      case False
      from lastLabel_ok [OF lb gid False] have ll: "lastLabel block = Inr (last (Labels block))" .
      let ?s = "storeNode (moduleID @ ''/'' @ cid)
        (moduleResourceNode moduleID cid block (last (Labels block)) file) (depth + 1) st"
      from "8"(2) [OF gid False ll] wf obtain st1 where
        r1: "processModuleReferences w m (extractReferences block file) moduleID depth
               moduleBasePath ?s = Inr st1" by auto
      from "8"(3) [OF gid False ll r1] wf lr obtain st' where
        "processModuleBlocks w m blocks file moduleID depth moduleBasePath st1 = Inr st'" by auto
      with gid False ll r1 show ?thesis by simp
    qed
  qed
next
  case (9 w m refs moduleID depth moduleBasePath st)
  then show ?case by (simp add: processModuleReferences.simps)
next
  case (10 w m moduleID depth moduleBasePath st)
  then show ?case by simp
next
  case (11 w m cr rest moduleID depth moduleBasePath st)
  show ?case
  proof (intro impI)
    assume wf: "wellFormedWorld w"
    let ?id = "moduleID @ ''/'' @ RefID (snd cr)"
    show "\<exists>st'. processModuleRefList w m (cr # rest) moduleID depth moduleBasePath st = Inr st'"
    proof (cases "\<not> isTerminalRef (RefID (snd cr)) \<and> \<not> processedNodes st ?id")
      case False
      with "11"(3) wf show ?thesis by auto
    next
      case True
      have "?id \<noteq> []" by simp
      with "11"(1) [OF True] wf obtain st1 where
        r: "traverseNode w m moduleBasePath ?id (depth + 1) st = Inr st1" by blast
      from "11"(2) [OF True r] wf obtain st' where
        "processModuleRefList w m rest moduleID depth moduleBasePath st1 = Inr st'" by auto
      with True r show ?thesis by simp
    qed
  qed
qed

section \<open>Visited identifiers end in the graph\<close>

lemma settled_refl: "settled w root st st"
  unfolding settled_def by blast

lemma settled_left:
  "settled w root s st' \<Longrightarrow> processedNodes s = processedNodes st \<Longrightarrow> settled w root st st'"
  by (simp add: settled_def)

lemma settled_right:
  "settled w root st s \<Longrightarrow> processedNodes s' = processedNodes s \<Longrightarrow>
     (\<And>k. nodes s k \<noteq> None \<Longrightarrow> nodes s' k \<noteq> None) \<Longrightarrow> settled w root st s'"
  unfolding settled_def by metis

lemma settled_trans:
  assumes "settled w root st st1" "settled w root st1 st2"
    and "\<And>k. nodes st1 k \<noteq> None \<Longrightarrow> nodes st2 k \<noteq> None"
  shows "settled w root st st2"
  using assms unfolding settled_def by metis

lemma settled_trans_changes:
  "settled w root st st1 \<Longrightarrow> settled w root st1 st2 \<Longrightarrow> changes ok st1 st2 \<Longrightarrow>
     settled w root st st2"
  by (erule (1) settled_trans) (erule (1) changes_dom)

lemma traverse_settled:
  "plainIdentifiers w \<longrightarrow> (CHR ''/'' \<in> set nodeID \<or> basePath = root) \<longrightarrow>
     (\<forall>st'. traverseNode w m basePath nodeID depth st = Inr st' \<longrightarrow> settled w root st st')"
  "plainIdentifiers w \<longrightarrow> basePath = root \<longrightarrow>
     (\<forall>st'. traverseReferences w m basePath refs depth st = Inr st' \<longrightarrow> settled w root st st')"
  "plainIdentifiers w \<longrightarrow>
     (\<forall>st'. traverseModuleDirectory w m moduleBasePath moduleID depth st = Inr st' \<longrightarrow>
        settled w root st st')"
  "plainIdentifiers w \<longrightarrow>
     (\<forall>st'. traverseModuleFiles w m files moduleBasePath moduleID depth st = Inr st' \<longrightarrow>
        settled w root st st')"
  "plainIdentifiers w \<longrightarrow>
     (\<forall>st'. processModuleBlocks w m blocks file moduleID depth moduleBasePath st = Inr st' \<longrightarrow>
        settled w root st st')"
  "plainIdentifiers w \<longrightarrow>
     (\<forall>st'. processModuleReferences w m refmap moduleID depth moduleBasePath st = Inr st' \<longrightarrow>
        settled w root st st')"
  "plainIdentifiers w \<longrightarrow>
     (\<forall>st'. processModuleRefList w m refs moduleID depth moduleBasePath st = Inr st' \<longrightarrow>
        settled w root st st')"
proof (induct w m basePath nodeID depth st
    and w m basePath refs depth st
    and w m moduleBasePath moduleID depth st
    and w m files moduleBasePath moduleID depth st
    and w m blocks "file" moduleID depth moduleBasePath st
    and w m refmap moduleID depth moduleBasePath st
    and w m refs moduleID depth moduleBasePath st
    rule: traverse_induct)
  case (1 w m basePath nodeID depth st)
  show ?case
  proof (intro impI allI)
    fix st'
    assume plain: "plainIdentifiers w" and base: "CHR ''/'' \<in> set nodeID \<or> basePath = root"
      and run: "traverseNode w m basePath nodeID depth st = Inr st'"
    from run show "settled w root st st'"
    proof (cases rule: traverseNode_cases)
      case skip
      then show ?thesis by (simp add: settled_refl)
    next
      case (visit st2)
      let ?s1 = "markProcessed nodeID st"
      from visit(1,2) have guard: "\<not> (m < depth \<or> processedNodes st nodeID)" by simp
      have m2': "(if strings_HasPrefix nodeID ''module.''
           then case moduleNameOf nodeID of Inl x \<Rightarrow> Inl x
                | Inr moduleName \<Rightarrow>
                    case findModuleNode w basePath (moduleIDOf moduleName) of
                      Inl x \<Rightarrow> Inl x
                    | Inr (modulePath, moduleNode) \<Rightarrow>
                        if modulePath \<noteq> []
                        then traverseModuleDirectory w m (resolvePath w basePath modulePath)
                               (moduleIDOf moduleName) depth
                               (storeNode nodeID moduleNode depth (markProcessed nodeID st))
                        else Inr (markProcessed nodeID st)
           else Inr (markProcessed nodeID st)) = Inr st2"
        using visit(3) by (simp add: expandModule_def)
      have A: "settled w root ?s1 st2"
        using visit(3)
      proof (cases rule: expandModule_cases)
        case skip
        then show ?thesis by (simp add: settled_refl)
      next
        case (expand name path mn)
        from "1"(1) [OF guard expand(1,2,3) refl expand(4)] plain expand(5)
        have "settled w root (storeNode nodeID mn depth ?s1) st2" by simp
        then show ?thesis by (rule settled_left) simp
      qed
      show ?thesis
        using visit(4)
      proof (cases rule: traverseDeclaration_cases)
        case missing
        show ?thesis
          unfolding settled_def
        proof (intro allI impI)
          fix k
          assume k: "processedNodes st' k \<and> \<not> processedNodes st k \<and> CHR ''/'' \<notin> set k"
          show "nodes st' k \<noteq> None \<or> findResourceNode w root k = Inr None"
          proof (cases "k = nodeID")
            case True
            with k base missing(1) show ?thesis by auto
          next
            case False
            with k missing(2) A show ?thesis unfolding settled_def by simp
          qed
        qed
      next
        case (found node)
        let ?s3 = "nextRange (storeNode nodeID node depth st2)"
        from found_plain [OF plain found(1)] base have root: "basePath = root" by simp
        from "1"(2) [OF guard m2' found(1) refl] plain root found(2)
        have "settled w root ?s3 st'" by simp
        then have B: "settled w root st2 st'" by (rule settled_left) simp
        from found(2) have c: "changes (deeper depth) ?s3 st'"
          by (rule traverseReferences_changes)
        have dom: "nodes st' k \<noteq> None" if "nodes st2 k \<noteq> None" for k
          using visit(4) that by (rule traverseDeclaration_dom)
        from A B dom have C: "settled w root ?s1 st'" by (rule settled_trans)
        have own: "nodes st' nodeID \<noteq> None"
          by (rule changes_dom [OF c]) simp
        show ?thesis
          unfolding settled_def
        proof (intro allI impI)
          fix k
          assume k: "processedNodes st' k \<and> \<not> processedNodes st k \<and> CHR ''/'' \<notin> set k"
          show "nodes st' k \<noteq> None \<or> findResourceNode w root k = Inr None"
          proof (cases "k = nodeID")
            case True
            with own show ?thesis by simp
          next
            case False
            with k C show ?thesis unfolding settled_def by simp
          qed
        qed
      qed
    qed
  qed
next
  case (2 w m basePath depth st)
  then show ?case by (simp add: settled_refl)
next
  case (3 w m basePath cr rest depth st)
  show ?case
  proof (intro impI allI)
    fix st'
    assume plain: "plainIdentifiers w" and root: "basePath = root"
      and run: "traverseReferences w m basePath (cr # rest) depth st = Inr st'"
    show "settled w root st st'"
    proof (cases "isTerminalRef (RefID (snd cr))")
      case True
      with "3"(3) plain root run show ?thesis by simp
    next
      case False
      with run obtain st1 where
        r1: "traverseNode w m basePath (RefID (snd cr)) (depth + 1) st = Inr st1" and
        r2: "traverseReferences w m basePath rest depth st1 = Inr st'"
        by (auto split: sum.splits)
      from "3"(1) [OF False] plain root r1 have a: "settled w root st st1" by simp
      from "3"(2) [OF False r1] plain root r2 have b: "settled w root st1 st'" by simp
      from r2 have "changes (deeper depth) st1 st'" by (rule traverseReferences_changes)
      with a b show ?thesis by (rule settled_trans_changes)
    qed
  qed
next
  case (4 w m moduleBasePath moduleID depth st)
  then show ?case
    by (auto simp: traverseModuleDirectory.simps settled_refl split: if_splits)
next
  case (5 w m moduleBasePath moduleID depth st)
  then show ?case by (simp add: settled_refl)
next
  case (6 w m "file" files moduleBasePath moduleID depth st)
  show ?case
  proof (intro impI allI)
    fix st'
    assume plain: "plainIdentifiers w"
      and run: "traverseModuleFiles w m (file # files) moduleBasePath moduleID depth st = Inr st'"
    show "settled w root st st'"
    proof (cases "parseContent w file moduleDirSchema")
      case None
      with "6"(1) plain run show ?thesis by simp
    next
      case (Some blocks)
      with run obtain st1 where
        r1: "processModuleBlocks w m blocks file moduleID depth moduleBasePath st = Inr st1" and
        r2: "traverseModuleFiles w m files moduleBasePath moduleID depth st1 = Inr st'"
        by (auto split: sum.splits)
      from "6"(2) [OF Some] plain r1 have a: "settled w root st st1" by simp
      from "6"(3) [OF Some r1] plain r2 have b: "settled w root st1 st'" by simp
      from r2 traverse_changes(4) have "changes (deeper depth) st1 st'" by blast
      with a b show ?thesis by (rule settled_trans_changes)
    qed
  qed
next
  case (7 w m "file" moduleID depth moduleBasePath st)
  then show ?case by (simp add: settled_refl)
next
  case (8 w m block blocks "file" moduleID depth moduleBasePath st)
  show ?case
  proof (intro impI allI)
    fix st'
    assume plain: "plainIdentifiers w"
      and run: "processModuleBlocks w m (block # blocks) file moduleID depth moduleBasePath st
        = Inr st'"
    then obtain cid where gid: "getBlockID block = Inr cid"
      by (auto split: sum.splits)
    show "settled w root st st'"
    proof (cases "cid = []")
      case True
      with run gid "8"(1) [OF gid True] plain show ?thesis by simp
    next
      case False
      let ?s = "storeNode (moduleID @ ''/'' @ cid)
        (moduleResourceNode moduleID cid block (last (Labels block)) file) (depth + 1) st"
      from run gid False have ll: "lastLabel block = Inr (last (Labels block))"
        by (auto simp: lastLabel_def split: sum.splits if_splits)
      from run gid False ll obtain st1 where
        r1: "processModuleReferences w m (extractReferences block file) moduleID depth
               moduleBasePath ?s = Inr st1" and
        r2: "processModuleBlocks w m blocks file moduleID depth moduleBasePath st1 = Inr st'"
        by (auto split: sum.splits)
      from "8"(2) [OF gid False ll] plain r1 have "settled w root ?s st1" by simp
      then have a: "settled w root st st1" by (rule settled_left) simp
      from "8"(3) [OF gid False ll r1] plain r2 have b: "settled w root st1 st'" by simp
      from r2 traverse_changes(5) have "changes (deeper depth) st1 st'" by blast
      with a b show ?thesis by (rule settled_trans_changes)
    qed
  qed
next
  case (9 w m refs moduleID depth moduleBasePath st)
  show ?case
  proof (intro impI allI)
    fix st'
    assume plain: "plainIdentifiers w"
      and run: "processModuleReferences w m refs moduleID depth moduleBasePath st = Inr st'"
    with "9" have "settled w root (nextRange st) st'"
      by (simp add: processModuleReferences.simps)
    then show "settled w root st st'" by (rule settled_left) simp
  qed
next
  case (10 w m moduleID depth moduleBasePath st)
  then show ?case by (simp add: settled_refl)
next
  case (11 w m cr rest moduleID depth moduleBasePath st)
  show ?case
  proof (intro impI allI)
    fix st'
    assume plain: "plainIdentifiers w"
      and run: "processModuleRefList w m (cr # rest) moduleID depth moduleBasePath st = Inr st'"
    let ?id = "moduleID @ ''/'' @ RefID (snd cr)"
    show "settled w root st st'"
    proof (cases "\<not> isTerminalRef (RefID (snd cr)) \<and> \<not> processedNodes st ?id")
      case False
      with "11"(3) plain run show ?thesis by auto
    next
      case True
      with run obtain st1 where
        r1: "traverseNode w m moduleBasePath ?id (depth + 1) st = Inr st1" and
        r2: "processModuleRefList w m rest moduleID depth moduleBasePath st1 = Inr st'"
        by (auto split: sum.splits)
      have sl: "CHR ''/'' \<in> set ?id" by simp
      from "11"(1) [OF True] plain sl r1 have a: "settled w root st st1" by blast
      from "11"(2) [OF True r1] plain r2 have b: "settled w root st1 st'" by simp
      from r2 traverse_changes(7) have "changes (deeper depth) st1 st'" by blast
      with a b show ?thesis by (rule settled_trans_changes)
    qed
  qed
qed

lemma traverseReferences_marks:
  "traverseReferences w m bp refs d st = Inr st' \<Longrightarrow> d + 1 \<le> m \<Longrightarrow> cr \<in> set refs \<Longrightarrow>
     \<not> isTerminalRef (RefID (snd cr)) \<Longrightarrow> processedNodes st' (RefID (snd cr))"
proof (induction refs arbitrary: st)
  case Nil
  then show ?case by simp
next
  case (Cons x refs)
  show ?case
  proof (cases "isTerminalRef (RefID (snd x))")
    case True
    with Cons show ?thesis by auto
  next
    case False
    with Cons.prems(1) obtain st1 where
      r1: "traverseNode w m bp (RefID (snd x)) (d + 1) st = Inr st1" and
      r2: "traverseReferences w m bp refs d st1 = Inr st'"
      by (auto split: sum.splits)
    show ?thesis
    proof (cases "cr = x")
      case True
      from traverseNode_marks [OF r1 Cons.prems(2)] have "processedNodes st1 (RefID (snd x))" .
      with traverseReferences_changes [OF r2] True show ?thesis
        by (auto intro: changes_processed)
    next
      case False
      with Cons.prems have "cr \<in> set refs" by simp
      from Cons.IH [OF r2 Cons.prems(2) this Cons.prems(4)] show ?thesis .
    qed
  qed
qed

text \<open>
  C1, as the code has it. The traversal is a total function: it ends on every
  configuration, cyclic or not. Let the world be well formed with plain identifiers,
  let the Locator find A and B in the base directory, and let the References of A
  hold the identifier of B itself, the whole dotted path, not beginning with \<open>var.\<close>
  or \<open>local.\<close>, in a category that the range loops visit. Then the run on A with a
  maximum depth of 1 or more returns without a panic, the Locator's Node of A is
  stored under A at depth 0, and B is a key of the node map. This holds in
  particular when B refers back to A.
\<close>

theorem mutual_references_both_stored:
  assumes wf: "wellFormedWorld w" and plain: "plainIdentifiers w"
    and fa: "findResourceNode w bp a = Inr (Some na)"
    and fb: "findResourceNode w bp b = Inr (Some nb)"
    and ab: "rb \<in> set (refsAt (References na) c)" "RefID rb = b"
    and order: "\<forall>n. c \<in> set (rangeOrder w n)"
    and nt: "\<not> isTerminalRef b" and ne: "a \<noteq> []" and depth: "1 \<le> m"
  shows "\<exists>g. buildDependencyGraph w (newGraph m) bp a = Inr g \<and>
             Nodes g a = Some (na\<lparr>Depth := 0\<rparr>) \<and> Nodes g b \<noteq> None"
proof -
  let ?s0 = "initialState (newGraph m)"
  have s0: "\<And>k. \<not> processedNodes ?s0 k" by (simp add: initialState_def)
  from traverse_returns(1) wf ne obtain st' where
    run: "traverseNode w m bp a 0 ?s0 = Inr st'" by blast
  from depth have m0: "0 \<le> m" by simp
  from found_plain [OF plain fa] have pa: "CHR ''/'' \<notin> set a" .
  from found_plain [OF plain fb] have pb: "CHR ''/'' \<notin> set b" .
  from traverseNode_first_visit [OF s0 m0 pa fa run]
  have A: "nodes st' a = Some (na\<lparr>Depth := 0\<rparr>)" by simp
  have marked: "processedNodes st' b"
    using run
  proof (cases rule: traverseNode_cases)
    case skip
    with m0 s0 show ?thesis by auto
  next
    case (visit st2)
    from visit(4) fa have r: "traverseReferences w m bp
        (rangeReferences (rangeOrder w (rangeCount st2)) (References na)) 0
        (nextRange (storeNode a na 0 st2)) = Inr st'"
      by (simp add: traverseDeclaration_def)
    from order ab(1) have "(c, rb) \<in> set (rangeReferences (rangeOrder w (rangeCount st2))
        (References na))"
      by (intro in_rangeReferences) simp_all
    from traverseReferences_marks [OF r _ this] depth nt ab(2) show ?thesis by simp
  qed
  from traverse_settled(1) plain run have "settled w bp ?s0 st'" by blast
  with marked s0 pb fb have B: "nodes st' b \<noteq> None"
    unfolding settled_def by auto
  from run A B show ?thesis by (simp add: buildDependencyGraph_def newGraph_def)
qed

lemma cycleWorld_wellFormed: "wellFormedWorld cycleWorld"
  unfolding wellFormedWorld_def
  by (auto simp: cycleWorld_def exampleWorld_def hclContent_def labelsFit_def sourceIsString_def
      refExpr_def split: option.splits if_splits)

lemma cycleWorld_plain: "plainIdentifiers cycleWorld"
  unfolding plainIdentifiers_def
  by (auto simp: cycleWorld_def exampleWorld_def hclContent_def getBlockID_def
      split: option.splits if_splits)

theorem mutual_references_both_stored_witness:
  "\<exists>g. buildDependencyGraph cycleWorld (newGraph 2) ''/cfg'' ''aws_instance.a'' = Inr g \<and>
       map_option Depth (Nodes g ''aws_instance.a'') = Some 0 \<and>
       Nodes g ''aws_instance.b'' \<noteq> None"
proof -
  obtain na where fa: "findResourceNode cycleWorld ''/cfg'' ''aws_instance.a'' = Inr (Some na)"
    and ra: "\<lparr>RefID = ''aws_instance.b'', RefPath = ''/cfg/main.tf''\<rparr>
               \<in> set (refsAt (References na) ''resource'')"
    by (simp add: cycle_eval)
  obtain nb where fb: "findResourceNode cycleWorld ''/cfg'' ''aws_instance.b'' = Inr (Some nb)"
    by (simp add: cycle_eval)
  have order: "\<forall>n. ''resource'' \<in> set (rangeOrder cycleWorld n)"
    by (simp add: cycleWorld_def exampleWorld_def)
  have nt: "\<not> isTerminalRef ''aws_instance.b''"
    by (simp add: isTerminalRef_def strings_HasPrefix_def)
  from mutual_references_both_stored [OF cycleWorld_wellFormed cycleWorld_plain fa fb ra _ order,
      of 2] nt
  obtain g where "buildDependencyGraph cycleWorld (newGraph 2) ''/cfg'' ''aws_instance.a'' = Inr g"
    "Nodes g ''aws_instance.a'' = Some (na\<lparr>Depth := 0\<rparr>)" "Nodes g ''aws_instance.b'' \<noteq> None"
    by auto
  then show ?thesis by (intro exI [of _ g]) simp
qed

lemmas attribute_eval = attributeWorld_def world_defs run_defs extractor_defs

text \<open>
  The claim as stated fails when the attributes mention the other resource through
  one of its attributes, as configurations usually do: A holds \<open>aws_instance.b.id\<close>,
  the extractor records that path whole, the Locator finds no declaration of that
  name, and B, although declared, is no key of the node map.
\<close>

theorem attribute_reference_counterexample:
  "map_option ID (case findResourceNode attributeWorld ''/cfg'' ''aws_instance.b'' of
       Inl p \<Rightarrow> None | Inr r \<Rightarrow> r) = Some ''aws_instance.b'' \<and>
   map_option (\<lambda>n. map RefID (refsAt (References n) ''resource''))
     (nodesOf (buildDependencyGraph attributeWorld (newGraph 3) ''/cfg'' ''aws_instance.a'')
        ''aws_instance.a'') = Some [''aws_instance.b.id''] \<and>
   depthAt (buildDependencyGraph attributeWorld (newGraph 3) ''/cfg'' ''aws_instance.a'')
     ''aws_instance.a'' = Some 0 \<and>
   nodesOf (buildDependencyGraph attributeWorld (newGraph 3) ''/cfg'' ''aws_instance.a'')
     ''aws_instance.b'' = None"
  by (simp add: depthAt_def nodesOf_def attribute_eval)

section \<open>A module identifier with an attribute suffix\<close>

















end
